theory Spec2Isabelle
  imports Complex_Main "HOL-Library.Word" "HOL-Library.Multiset"
    "HOL-Library.Char_ord" "HOL-Library.List_Lexorder"
begin

unbundle bit_operations_syntax

section \<open>Data model (main.go, lines 20-37)\<close>

text \<open>
  Go's \<open>uint64\<close> is \<open>64 word\<close>: subtraction and multiplication wrap around.
  A \<open>time.Time\<close> is an instant, counted in nanoseconds from Go's zero time
  (January 1, year 1, 00:00 UTC); the zero value of the type is the instant 0. Its
  wall clock and its monotonic clock are taken to agree, and its location is left out.
  A \<open>float64\<close> that the program computes is written as the rational number it
  denotes, with the rounding of every conversion written out.
\<close>

type_synonym uint64 = "64 word"
type_synonym uint32 = "32 word"
type_synonym Time = int
type_synonym float64 = rat

record DiskInfo =
  Drive :: string
  TotalSpace :: uint64
  FreeSpace :: uint64
  UsedSpace :: uint64

record Snapshot =
  Timestamp :: Time
  Disks :: "DiskInfo list"

record HistoryData =
  Snapshots :: "Snapshot list"

section \<open>Formatting of numbers (fmt.Sprintf as the program uses it)\<close>

text \<open>The verb \<open>%d\<close> on an unsigned value: its decimal digits.\<close>

function sprintf_d :: "nat \<Rightarrow> string" where
  "sprintf_d n =
     (if n < 10 then [''0123456789'' ! n]
      else sprintf_d (n div 10) @ [''0123456789'' ! (n mod 10)])"
  by pat_completeness auto
termination
  by (relation "measure (\<lambda>n. n)") auto

declare sprintf_d.simps [simp del]

text \<open>
  The conversion \<open>float64(x)\<close> of a \<open>uint64\<close>: exact below \<open>2^53\<close>, and above it
  rounded to 53 significant bits, ties to the even mantissa.
\<close>

function bit_length :: "nat \<Rightarrow> nat" where
  "bit_length n = (if n = 0 then 0 else Suc (bit_length (n div 2)))"
  by pat_completeness auto
termination
  by (relation "measure (\<lambda>n. n)") auto

declare bit_length.simps [simp del]

definition round_to_53_bits :: "nat \<Rightarrow> nat" where
  "round_to_53_bits n =
     (if n < 2 ^ 53 then n
      else
        let e = bit_length n - 53;
            q = n div 2 ^ e;
            r = n mod 2 ^ e;
            m = (if 2 ^ e < 2 * r \<or> (2 * r = 2 ^ e \<and> odd q) then q + 1 else q)
        in m * 2 ^ e)"

definition float64_of_uint64 :: "uint64 \<Rightarrow> float64" where
  "float64_of_uint64 w = of_nat (round_to_53_bits (unat w))"

text \<open>
  The verb \<open>%.1f\<close> on a value that is not negative: the value rounded to one decimal,
  ties to the even digit, printed with exactly one digit after the point.
\<close>

definition round_half_even :: "rat \<Rightarrow> nat" where
  "round_half_even x =
     (let f = nat \<lfloor>x\<rfloor>; r = x - of_nat f
      in if 1 / 2 < r \<or> (r = 1 / 2 \<and> odd f) then f + 1 else f)"

definition sprintf_f1 :: "float64 \<Rightarrow> string" where
  "sprintf_f1 x =
     (let t = round_half_even (x * 10)
      in sprintf_d (t div 10) @ ''.'' @ [''0123456789'' ! (t mod 10)])"

section \<open>formatBytes (main.go, lines 243-254)\<close>

datatype runtime_panic = IndexOutOfRange | NilPointerDereference

text \<open>
  The loop \<open>for n := bytes / unit; n >= unit; n /= unit { div *= unit; exp++ }\<close>,
  on the loop variable \<open>n\<close> and the two variables it updates.
\<close>

function formatBytes_loop :: "uint64 \<Rightarrow> uint64 \<Rightarrow> nat \<Rightarrow> uint64 \<times> nat" where
  "formatBytes_loop n div' exp' =
     (if 1024 \<le> n then formatBytes_loop (n div 1024) (div' * 1024) (exp' + 1)
      else (div', exp'))"
  by pat_completeness auto
termination
proof (relation "measure (\<lambda>(n, d, e). unat n)")
  show "wf (measure (\<lambda>(n :: uint64, d :: uint64, e :: nat). unat n))"
    by simp
next
  fix n div' :: uint64 and exp' :: nat
  assume big: "1024 \<le> n"
  then have "1024 \<le> unat n"
    by (simp add: word_le_nat_alt)
  then have "unat n div 1024 < unat n"
    by simp
  then show "((n div 1024, div' * 1024, exp' + 1), (n, div', exp'))
      \<in> measure (\<lambda>(n, d, e). unat n)"
    by (simp add: unat_div)
qed

declare formatBytes_loop.simps [simp del]

text \<open>
  The index expression \<open>"KMGTPE"[exp]\<close> panics when \<open>exp\<close> is out of range; the
  quotient of a \<open>float64\<close> by a power of two in range is exact.
\<close>

definition formatBytes :: "uint64 \<Rightarrow> runtime_panic + string" where
  "formatBytes bytes =
     (if bytes < 1024 then Inr (sprintf_d (unat bytes) @ '' B'')
      else
        let (div', exp') = formatBytes_loop (bytes div 1024) 1024 0
        in if exp' < length ''KMGTPE''
           then Inr (sprintf_f1 (float64_of_uint64 bytes / float64_of_uint64 div')
                  @ '' '' @ [''KMGTPE'' ! exp'] @ ''B'')
           else Inl IndexOutOfRange)"


section \<open>The Windows calls (kernel32.dll)\<close>

text \<open>
  The three procedures of \<open>kernel32.dll\<close> are the program's input. A call of
  \<open>GetDiskFreeSpaceExW\<close> either returns, with its return value and the three numbers
  it wrote, or is still running when the two seconds that \<open>getDiskSpace\<close> waits
  are over.
\<close>

datatype syscall =
    Returns uint64 uint64 uint64 uint64
      \<comment> \<open>\<open>ret\<close>, \<open>freeBytesAvailable\<close>, \<open>totalNumberOfBytes\<close>, \<open>totalNumberOfFreeBytes\<close>\<close>
  | StillRunning

record kernel32 =
  getLogicalDrives :: uint32
  getDriveTypeW :: "string \<Rightarrow> uint32"
  getDiskFreeSpaceExW :: "string \<Rightarrow> syscall"

text \<open>Errors of the standard library are kept apart from the program's own.\<close>

datatype library_error =
    NotExist
  | PermissionDenied
  | SyntaxError
  | UnmarshalTypeError
  | MarshalerError

datatype error =
    FailedToConvertPath
  | FailedToGetDiskInfo string
  | TimeoutGettingDiskInfo string
  | NoDrivesFound
  | LibraryError library_error

section \<open>getDiskSpace (main.go, lines 80-122)\<close>

text \<open>
  \<open>syscall.UTF16PtrFromString\<close> fails on a string with a NUL byte. The goroutine
  makes the call and builds the result; \<open>select\<close> takes the result when the call
  returned in time and the timeout error otherwise.
\<close>

definition getDiskSpace :: "kernel32 \<Rightarrow> string \<Rightarrow> error + DiskInfo" where
  "getDiskSpace K drive =
     (if CHR 0x00 \<in> set drive then Inl FailedToConvertPath
      else
        (case getDiskFreeSpaceExW K drive of
           StillRunning \<Rightarrow> Inl (TimeoutGettingDiskInfo drive)
         | Returns ret freeBytesAvailable totalNumberOfBytes totalNumberOfFreeBytes \<Rightarrow>
             if ret = 0 then Inl (FailedToGetDiskInfo drive)
             else Inr \<lparr>Drive = drive,
                       TotalSpace = totalNumberOfBytes,
                       FreeSpace = freeBytesAvailable,
                       UsedSpace = totalNumberOfBytes - freeBytesAvailable\<rparr>))"

section \<open>getAvailableDrives and getDriveType (main.go, lines 124-165)\<close>

definition DRIVE_UNKNOWN :: uint32 where "DRIVE_UNKNOWN = 0"
definition DRIVE_NO_ROOT_DIR :: uint32 where "DRIVE_NO_ROOT_DIR = 1"
definition DRIVE_REMOVABLE :: uint32 where "DRIVE_REMOVABLE = 2"
definition DRIVE_FIXED :: uint32 where "DRIVE_FIXED = 3"
definition DRIVE_REMOTE :: uint32 where "DRIVE_REMOTE = 4"
definition DRIVE_CDROM :: uint32 where "DRIVE_CDROM = 5"
definition DRIVE_RAMDISK :: uint32 where "DRIVE_RAMDISK = 6"

definition getDriveType :: "kernel32 \<Rightarrow> string \<Rightarrow> uint32" where
  "getDriveType K drive = getDriveTypeW K drive"

text \<open>
  The loop over \<open>i = 0, ..., 25\<close>; \<open>fmt.Sprintf("%c:\\", 'A'+i)\<close> is the letter
  number \<open>i\<close> of the alphabet, a colon and a backslash.
\<close>

fun getAvailableDrives_loop :: "kernel32 \<Rightarrow> nat list \<Rightarrow> string list \<Rightarrow> string list" where
  "getAvailableDrives_loop K [] drives = drives"
| "getAvailableDrives_loop K (i # rest) drives =
     (if getLogicalDrives K AND push_bit i 1 \<noteq> 0 then
        let drive = [''ABCDEFGHIJKLMNOPQRSTUVWXYZ'' ! i, CHR '':'', CHR 0x5C];
            driveType = getDriveType K drive
        in if driveType \<noteq> DRIVE_CDROM \<and> driveType \<noteq> DRIVE_REMOTE
           then getAvailableDrives_loop K rest (drives @ [drive])
           else getAvailableDrives_loop K rest drives
      else getAvailableDrives_loop K rest drives)"

definition getAvailableDrives :: "kernel32 \<Rightarrow> string list" where
  "getAvailableDrives K = getAvailableDrives_loop K [0..<26] []"

section \<open>getAllDisksInfo (main.go, lines 167-204)\<close>

text \<open>
  One goroutine per drive sends twice: after a failed probe the error to \<open>errors\<close>
  and then \<open>nil\<close> to \<open>results\<close>, after a successful one the result to \<open>results\<close>
  and then \<open>nil\<close> to \<open>errors\<close>. Both channels have room for every drive, so no
  send waits. The runtime interleaves the goroutines: a schedule lists, send by send,
  which goroutine (by its index in \<open>drives\<close>) moves next.
\<close>

datatype send = ToResults "DiskInfo option" | ToErrors "error option"

record channels =
  results :: "DiskInfo option list"
  errors :: "error option list"

fun worker :: "error + DiskInfo \<Rightarrow> send list" where
  "worker (Inl err) = [ToErrors (Some err), ToResults None]"
| "worker (Inr info) = [ToResults (Some info), ToErrors None]"

fun send_msg :: "send \<Rightarrow> channels \<Rightarrow> channels" where
  "send_msg (ToResults r) ch = ch\<lparr>results := results ch @ [r]\<rparr>"
| "send_msg (ToErrors e) ch = ch\<lparr>errors := errors ch @ [e]\<rparr>"

text \<open>
  The goroutines' remaining sends are \<open>ps\<close>; a goroutine that has finished, or an
  index that names none, does not move.
\<close>

fun run_workers :: "nat list \<Rightarrow> send list list \<Rightarrow> channels \<Rightarrow> send list list \<times> channels" where
  "run_workers [] ps ch = (ps, ch)"
| "run_workers (i # sched) ps ch =
     (if i < length ps then
        (case ps ! i of
           [] \<Rightarrow> run_workers sched ps ch
         | s # rest \<Rightarrow> run_workers sched (ps[i := rest]) (send_msg s ch))
      else run_workers sched ps ch)"

text \<open>
  The collecting loop \<open>for range drives\<close> receives one value from each channel per
  round, in the order of arrival; it prints an error to the standard error stream and
  appends a result. A receive from a channel that stays empty never returns: \<open>None\<close>.
\<close>

fun collect :: "nat \<Rightarrow> channels \<Rightarrow> DiskInfo list \<Rightarrow> error list \<Rightarrow> (DiskInfo list \<times> error list) option" where
  "collect 0 ch disks stderr = Some (disks, stderr)"
| "collect (Suc n) ch disks stderr =
     (case results ch of
        [] \<Rightarrow> None
      | info # rs \<Rightarrow>
          (case errors ch of
             [] \<Rightarrow> None
           | err # es \<Rightarrow>
               (case err of
                  Some e \<Rightarrow> collect n \<lparr>results = rs, errors = es\<rparr> disks (stderr @ [e])
                | None \<Rightarrow>
                    (case info of
                       Some i \<Rightarrow> collect n \<lparr>results = rs, errors = es\<rparr> (disks @ [i]) stderr
                     | None \<Rightarrow> collect n \<lparr>results = rs, errors = es\<rparr> disks stderr))))"

definition getAllDisksInfo :: "kernel32 \<Rightarrow> nat list \<Rightarrow> (DiskInfo list \<times> error list) option" where
  "getAllDisksInfo K sched =
     (let drives = getAvailableDrives K;
          (ps, ch) = run_workers sched (map (\<lambda>d. worker (getDiskSpace K d)) drives)
                       \<lparr>results = [], errors = []\<rparr>
      in collect (length drives) ch [] [])"

text \<open>A schedule is complete for \<open>n\<close> goroutines when each of them gets its two moves.\<close>

definition complete :: "nat \<Rightarrow> nat list \<Rightarrow> bool" where
  "complete n sched = list_all (\<lambda>i. 2 \<le> count_list sched i) [0..<n]"

section \<open>The history file (main.go, lines 206-240)\<close>

text \<open>
  The file \<open>disk_monitor_history.json\<close> of the home directory is absent, or there but
  closed to the program, or holds bytes. \<open>json.MarshalIndent\<close> and \<open>json.Unmarshal\<close>
  (package \<open>encoding/json\<close>, at the type \<open>HistoryData\<close>) are library code and are
  taken as given.
\<close>

datatype store = Absent | Locked | Bytes string

record encoding_json =
  MarshalIndent :: "HistoryData \<Rightarrow> library_error + string"
  Unmarshal :: "string \<Rightarrow> library_error + HistoryData"

definition ReadFile :: "store \<Rightarrow> library_error + string" where
  "ReadFile f = (case f of Absent \<Rightarrow> Inl NotExist | Locked \<Rightarrow> Inl PermissionDenied | Bytes data \<Rightarrow> Inr data)"

definition IsNotExist :: "library_error \<Rightarrow> bool" where
  "IsNotExist e = (e = NotExist)"

text \<open>
  \<open>os.WriteFile\<close> opens the file with \<open>O_WRONLY|O_CREATE|O_TRUNC\<close> and writes the
  bytes into it: a call that runs to its end leaves exactly \<open>data\<close>, and a process that
  stops after \<open>n\<close> bytes leaves the first \<open>n\<close> bytes of \<open>data\<close> and nothing of the
  old content.
\<close>

definition WriteFile :: "string \<Rightarrow> store \<Rightarrow> library_error option \<times> store" where
  "WriteFile data f = (case f of Locked \<Rightarrow> (Some PermissionDenied, Locked) | _ \<Rightarrow> (None, Bytes data))"

definition WriteFile_stopped :: "nat \<Rightarrow> string \<Rightarrow> store \<Rightarrow> store" where
  "WriteFile_stopped n data f = (case f of Locked \<Rightarrow> Locked | _ \<Rightarrow> Bytes (take n data))"

definition loadHistory :: "encoding_json \<Rightarrow> store \<Rightarrow> error + HistoryData" where
  "loadHistory J f =
     (case ReadFile f of
        Inl err \<Rightarrow>
          if IsNotExist err then Inr \<lparr>Snapshots = []\<rparr>
          else Inl (LibraryError err)
      | Inr data \<Rightarrow>
          (case Unmarshal J data of
             Inl err \<Rightarrow> Inl (LibraryError err)
           | Inr history \<Rightarrow> Inr history))"

definition saveHistory :: "encoding_json \<Rightarrow> HistoryData \<Rightarrow> store \<Rightarrow> error option \<times> store" where
  "saveHistory J history f =
     (case MarshalIndent J history of
        Inl err \<Rightarrow> (Some (LibraryError err), f)
      | Inr data \<Rightarrow>
          (case WriteFile data f of
             (Some err, f') \<Rightarrow> (Some (LibraryError err), f')
           | (None, f') \<Rightarrow> (None, f')))"

text \<open>\<open>saveHistory\<close> in a process that stops while \<open>os.WriteFile\<close> has written \<open>n\<close> bytes.\<close>

definition saveHistory_stopped :: "nat \<Rightarrow> encoding_json \<Rightarrow> HistoryData \<Rightarrow> store \<Rightarrow> store" where
  "saveHistory_stopped n J history f =
     (case MarshalIndent J history of
        Inl err \<Rightarrow> f
      | Inr data \<Rightarrow> WriteFile_stopped n data f)"

text \<open>The statement \<open>history.Snapshots = append(history.Snapshots, snapshot)\<close>.\<close>

definition append_snapshot :: "HistoryData \<Rightarrow> Snapshot \<Rightarrow> HistoryData" where
  "append_snapshot history snapshot = history\<lparr>Snapshots := Snapshots history @ [snapshot]\<rparr>"

section \<open>collectAndSave (main.go, lines 655-691)\<close>

text \<open>
  The function's error and the file it leaves; the lines it prints after a successful
  save are left out. \<open>now\<close> is the value of \<open>time.Now()\<close>.
\<close>

definition collectAndSave ::
  "kernel32 \<Rightarrow> nat list \<Rightarrow> Time \<Rightarrow> encoding_json \<Rightarrow> store \<Rightarrow> (error option \<times> store) option" where
  "collectAndSave K sched now J f =
     (case getAllDisksInfo K sched of
        None \<Rightarrow> None
      | Some (disks, stderr) \<Rightarrow>
          Some
            (if length disks = 0 then (Some NoDrivesFound, f)
             else
               let snapshot = \<lparr>Timestamp = now, Disks = disks\<rparr>
               in (case loadHistory J f of
                     Inl err \<Rightarrow> (Some err, f)
                   | Inr history \<Rightarrow> saveHistory J (append_snapshot history snapshot) f)))"

section \<open>The dashboard model (main.go, lines 256-439)\<close>

record Model =
  history :: "HistoryData option"
  graphs :: "string \<rightharpoonup> float64 list"
  currentView :: string
  selectedDisk :: int
  width :: int
  height :: int
  err :: "error option"
  loading :: bool
  status :: string

text \<open>\<open>NewModel\<close> drops the error of \<open>loadHistory\<close>: the pointer \<open>history\<close> is then nil.\<close>

definition NewModel :: "encoding_json \<Rightarrow> store \<Rightarrow> Model" where
  "NewModel J f =
     \<lparr>history = (case loadHistory J f of Inl e \<Rightarrow> None | Inr h \<Rightarrow> Some h),
      graphs = Map.empty,
      currentView = ''current'',
      selectedDisk = 0,
      width = 0,
      height = 0,
      err = None,
      loading = True,
      status = ''Loading data...''\<rparr>"

text \<open>
  The expression \<open>float64(disk.FreeSpace) / 1024 / 1024 / 1024\<close>: the conversion rounds,
  the three divisions by a power of two are exact.
\<close>

definition spaceGB :: "DiskInfo \<Rightarrow> float64" where
  "spaceGB disk = float64_of_uint64 (FreeSpace disk) / 1024 / 1024 / 1024"

text \<open>
  The inner loop \<open>for _, disk := range snapshot.Disks\<close> stops at the first disk of the
  drive; the outer loop appends that disk's point to \<open>data\<close>.
\<close>

fun first_disk :: "string \<Rightarrow> DiskInfo list \<Rightarrow> DiskInfo option" where
  "first_disk drive [] = None"
| "first_disk drive (disk # rest) = (if Drive disk = drive then Some disk else first_disk drive rest)"

fun drive_data :: "string \<Rightarrow> Snapshot list \<Rightarrow> float64 list \<Rightarrow> float64 list" where
  "drive_data drive [] data = data"
| "drive_data drive (snapshot # rest) data =
     (case first_disk drive (Disks snapshot) of
        None \<Rightarrow> drive_data drive rest data
      | Some disk \<Rightarrow> drive_data drive rest (data @ [spaceGB disk]))"

text \<open>The keys of \<open>driveMap\<close>, sorted by \<open>sort.Strings\<close>.\<close>

definition unique_drives :: "Snapshot list \<Rightarrow> string list" where
  "unique_drives snapshots =
     sort (remdups (concat (map (\<lambda>snapshot. map Drive (Disks snapshot)) snapshots)))"

fun gather :: "Snapshot list \<Rightarrow> string list \<Rightarrow> (string \<rightharpoonup> float64 list) \<Rightarrow> (string \<rightharpoonup> float64 list)" where
  "gather snapshots [] g = g"
| "gather snapshots (drive # rest) g = gather snapshots rest (g(drive \<mapsto> drive_data drive snapshots []))"

definition updateChart :: "Model \<Rightarrow> runtime_panic + Model" where
  "updateChart m =
     (case history m of
        None \<Rightarrow> Inl NilPointerDereference
      | Some h \<Rightarrow>
          if length (Snapshots h) < 2 then Inr m
          else Inr (m\<lparr>graphs := gather (Snapshots h) (unique_drives (Snapshots h)) Map.empty\<rparr>))"

text \<open>The case \<open>diskInfoMsg\<close> of \<open>Update\<close> (lines 359-379), with the file it leaves.\<close>

definition Update_diskInfoMsg ::
  "encoding_json \<Rightarrow> Time \<Rightarrow> DiskInfo list \<Rightarrow> Model \<Rightarrow> store \<Rightarrow> runtime_panic + Model \<times> store" where
  "Update_diskInfoMsg J now disks m f =
     (if length disks = 0 then Inr (m\<lparr>err := Some NoDrivesFound, loading := False\<rparr>, f)
      else
        case history m of
          None \<Rightarrow> Inl NilPointerDereference
        | Some h \<Rightarrow>
            let snapshot = \<lparr>Timestamp = now, Disks = disks\<rparr>;
                h' = append_snapshot h snapshot;
                m1 = m\<lparr>history := Some h'\<rparr>;
                (e, f') = saveHistory J h' f;
                m2 = (case e of Some x \<Rightarrow> m1\<lparr>err := Some x\<rparr> | None \<Rightarrow> m1);
                m3 = m2\<lparr>loading := False, status := []\<rparr>
            in (case updateChart m3 of
                  Inl p \<Rightarrow> Inl p
                | Inr m4 \<Rightarrow> Inr (m4, f')))"

section \<open>renderChartView (main.go, lines 532-653)\<close>

text \<open>
  \<open>Time.Sub\<close> gives a \<open>Duration\<close>, a count of nanoseconds in 64 bits that stops at
  the least and the greatest value of the type.
\<close>

definition Hour :: int where
  "Hour = 3600000000000"

definition Sub :: "Time \<Rightarrow> Time \<Rightarrow> int" where
  "Sub t u =
     (let d = t - u
      in if d < - (2 ^ 63) then - (2 ^ 63) else if 2 ^ 63 - 1 < d then 2 ^ 63 - 1 else d)"

text \<open>
  What the terminal libraries and \<open>Time.Format\<close> do is taken as given: the header's
  style, the label \<open>Format("02.01 15:04")\<close> of an instant, the text that lines 577-636
  write from the points and labels (caption, plot, time axis, statistics), and the
  legend of lines 639-650.
\<close>

record presentation =
  headerStyle :: "string \<Rightarrow> string"
  Format :: "Time \<Rightarrow> string"
  chart :: "string \<Rightarrow> float64 list \<Rightarrow> string list \<Rightarrow> int \<Rightarrow> int \<Rightarrow> string"
  legend :: "string list \<Rightarrow> int \<Rightarrow> string"

text \<open>
  The loop of lines 560-575 over the snapshots, \<open>i\<close> the index of the snapshot and
  \<open>n\<close> the number of snapshots.
\<close>

fun collect_points ::
  "presentation \<Rightarrow> string \<Rightarrow> nat \<Rightarrow> nat \<Rightarrow> Snapshot list \<Rightarrow>
     float64 list \<times> string list \<times> Time \<Rightarrow> float64 list \<times> string list \<times> Time" where
  "collect_points P selectedDrive n i [] st = st"
| "collect_points P selectedDrive n i (snapshot # rest) (dataPoints, timeLabels, lastTime) =
     (case first_disk selectedDrive (Disks snapshot) of
        None \<Rightarrow> collect_points P selectedDrive n (i + 1) rest (dataPoints, timeLabels, lastTime)
      | Some disk \<Rightarrow>
          if i = 0 \<or> int i = int n - 1 \<or> 12 * Hour < Sub (Timestamp snapshot) lastTime
          then collect_points P selectedDrive n (i + 1) rest
                 (dataPoints @ [spaceGB disk],
                  timeLabels @ [Format P (Timestamp snapshot)],
                  Timestamp snapshot)
          else collect_points P selectedDrive n (i + 1) rest
                 (dataPoints @ [spaceGB disk], timeLabels @ [[]], lastTime))"

definition renderChartView :: "presentation \<Rightarrow> kernel32 \<Rightarrow> Model \<Rightarrow> runtime_panic + string" where
  "renderChartView P K m =
     (case history m of
        None \<Rightarrow> Inl NilPointerDereference
      | Some h \<Rightarrow>
          if length (Snapshots h) < 2
          then Inr (headerStyle P ''Free space over time:'' @ ''\<newline>\<newline>''
                 @ ''Not enough data for a graph yet.\<newline>''
                 @ ''Run the program a few times to build history.\<newline>'')
          else
            let height' = (if height m - 20 < 10 then 10 else height m - 20);
                drives = getAvailableDrives K;
                body =
                  (if 0 \<le> selectedDisk m \<and> selectedDisk m < int (length drives) then
                     let selectedDrive = drives ! nat (selectedDisk m);
                         (dataPoints, timeLabels, lastTime) =
                           collect_points P selectedDrive (length (Snapshots h)) 0 (Snapshots h) ([], [], 0)
                     in if 0 < length dataPoints
                        then chart P selectedDrive dataPoints timeLabels height' (width m)
                        else []
                   else [])
            in Inr (headerStyle P ''Free space over time:'' @ ''\<newline>\<newline>'' @ body
                 @ ''\<newline>Drives: '' @ legend P drives (selectedDisk m)))"


section \<open>Notions for the statements\<close>

text \<open>
  None of the definitions of this section is code of the program: they name what the
  theorems speak about.
\<close>

subsection \<open>Channel contents\<close>

text \<open>What one send adds to each channel, and what the goroutines have still to send.\<close>

fun to_results :: "send \<Rightarrow> DiskInfo option list" where
  "to_results (ToResults r) = [r]"
| "to_results (ToErrors e) = []"

fun to_errors :: "send \<Rightarrow> error option list" where
  "to_errors (ToResults r) = []"
| "to_errors (ToErrors e) = [e]"

definition pending_results :: "send list list \<Rightarrow> DiskInfo option list" where
  "pending_results ps = concat (map (\<lambda>p. concat (map to_results p)) ps)"

definition pending_errors :: "send list list \<Rightarrow> error option list" where
  "pending_errors ps = concat (map (\<lambda>p. concat (map to_errors p)) ps)"

text \<open>What the goroutine of a probe sends to each channel.\<close>

fun result_msg :: "error + DiskInfo \<Rightarrow> DiskInfo option" where
  "result_msg (Inl e) = None"
| "result_msg (Inr info) = Some info"

fun error_msg :: "error + DiskInfo \<Rightarrow> error option" where
  "error_msg (Inl e) = Some e"
| "error_msg (Inr info) = None"

fun somes :: "'a option list \<Rightarrow> 'a list" where
  "somes [] = []"
| "somes (None # xs) = somes xs"
| "somes (Some x # xs) = x # somes xs"

text \<open>The body of \<open>getAllDisksInfo\<close> on the probes' outcomes, drive by drive.\<close>

definition drain :: "(error + DiskInfo) list \<Rightarrow> nat list \<Rightarrow> (DiskInfo list \<times> error list) option" where
  "drain outs sched =
     (let (ps, ch) = run_workers sched (map worker outs) \<lparr>results = [], errors = []\<rparr>
      in collect (length outs) ch [] [])"

text \<open>The schedule in which the goroutines send one after the other, in the given order.\<close>

definition in_turn :: "nat list \<Rightarrow> nat list" where
  "in_turn order = concat (map (\<lambda>i. [i, i]) order)"

subsection \<open>The library's contract\<close>


subsection \<open>Series\<close>

text \<open>
  The disks of a drive, one for each snapshot that has the drive, in the order of the
  snapshots; and the series that the model holds for a drive, the lookup
  \<open>m.graphs[drive]\<close> of a Go map, which is the empty slice for a missing key.
\<close>

definition containing :: "string \<Rightarrow> Snapshot list \<Rightarrow> DiskInfo list" where
  "containing drive snapshots = List.map_filter (\<lambda>snapshot. first_disk drive (Disks snapshot)) snapshots"

definition series_of :: "Model \<Rightarrow> string \<Rightarrow> float64 list" where
  "series_of m drive = (case graphs m drive of None \<Rightarrow> [] | Some data \<Rightarrow> data)"

text \<open>
  The series in the words of the specification: for each snapshot that contains the
  volume, in stored order, the free space in bytes divided by \<open>1024^3\<close>.
\<close>

definition spec_series :: "string \<Rightarrow> Snapshot list \<Rightarrow> rat list" where
  "spec_series drive snapshots =
     map (\<lambda>snapshot. of_nat (unat (FreeSpace (the (find (\<lambda>disk. Drive disk = drive) (Disks snapshot))))) / 1024 ^ 3)
       (filter (\<lambda>snapshot. drive \<in> Drive ` set (Disks snapshot)) snapshots)"

text \<open>
  The labels in the words of the specification, from the timestamps of the points: a
  label at the first point, at the last point and at every point more than twelve hours
  after the point labelled before it, a blank at every other point.
\<close>

fun spec_labels :: "presentation \<Rightarrow> bool \<Rightarrow> Time \<Rightarrow> Time list \<Rightarrow> string list" where
  "spec_labels P first prev [] = []"
| "spec_labels P first prev (t # ts) =
     (if first \<or> ts = [] \<or> 12 * Hour < Sub t prev
      then Format P t # spec_labels P False t ts
      else [] # spec_labels P False prev ts)"

section \<open>Example inputs\<close>

text \<open>
  A machine with the one drive \<open>C:\<close>, fixed, whose probe gives \<open>reply\<close>, and a
  machine without drives.
\<close>

definition one_drive :: "syscall \<Rightarrow> kernel32" where
  "one_drive reply =
     \<lparr>getLogicalDrives = 4,
      getDriveTypeW = (\<lambda>drive. DRIVE_FIXED),
      getDiskFreeSpaceExW = (\<lambda>drive. reply)\<rparr>"

definition no_drive :: kernel32 where
  "no_drive =
     \<lparr>getLogicalDrives = 0,
      getDriveTypeW = (\<lambda>drive. DRIVE_NO_ROOT_DIR),
      getDiskFreeSpaceExW = (\<lambda>drive. StillRunning)\<rparr>"

text \<open>
  A machine with the fixed drives \<open>C:\<close> and \<open>D:\<close>; the probe of \<open>C:\<close> succeeds and
  the probe of every other drive fails at once.
\<close>

definition two_drives :: kernel32 where
  "two_drives =
     \<lparr>getLogicalDrives = 12,
      getDriveTypeW = (\<lambda>drive. DRIVE_FIXED),
      getDiskFreeSpaceExW =
        (\<lambda>drive. if drive = ''C:'' @ [CHR 0x5C]
                 then Returns 1 150000000000 500000000000 150000000000
                 else Returns 0 0 0 0)\<rparr>"


text \<open>
  The history of the README's section on the data format, one snapshot of
  2024-01-15T10:30:00Z, with its text as the README prints it, which is the output of
  \<open>json.MarshalIndent(history, "", "  ")\<close>; and the same history with a second
  snapshot, a day later.
\<close>

definition readme_disk :: DiskInfo where
  "readme_disk =
     \<lparr>Drive = ''C:'' @ [CHR 0x5C], TotalSpace = 500000000000, FreeSpace = 150000000000,
      UsedSpace = 350000000000\<rparr>"

definition readme_snapshot :: Snapshot where
  "readme_snapshot = \<lparr>Timestamp = 63840911400000000000, Disks = [readme_disk]\<rparr>"

definition readme_history :: HistoryData where
  "readme_history = \<lparr>Snapshots = [readme_snapshot]\<rparr>"

definition readme_text :: string where
  \<open>readme_text =
     ''{\<newline>  "snapshots": [\<newline>    {\<newline>      "timestamp": "2024-01-15T10:30:00Z",\<newline>''
     @ ''      "disks": [\<newline>        {\<newline>          "drive": "C:'' @ [CHR 0x5C, CHR 0x5C] @ ''",\<newline>''
     @ ''          "total_space": 500000000000,\<newline>          "free_space": 150000000000,\<newline>''
     @ ''          "used_space": 350000000000\<newline>        }\<newline>      ]\<newline>    }\<newline>  ]\<newline>}''\<close>

definition later_disk :: DiskInfo where
  "later_disk =
     \<lparr>Drive = ''C:'' @ [CHR 0x5C], TotalSpace = 500000000000, FreeSpace = 140000000000,
      UsedSpace = 360000000000\<rparr>"

definition later_snapshot :: Snapshot where
  "later_snapshot = \<lparr>Timestamp = 63840997800000000000, Disks = [later_disk]\<rparr>"

definition later_text :: string where
  \<open>later_text =
     ''{\<newline>  "snapshots": [\<newline>    {\<newline>      "timestamp": "2024-01-15T10:30:00Z",\<newline>''
     @ ''      "disks": [\<newline>        {\<newline>          "drive": "C:'' @ [CHR 0x5C, CHR 0x5C] @ ''",\<newline>''
     @ ''          "total_space": 500000000000,\<newline>          "free_space": 150000000000,\<newline>''
     @ ''          "used_space": 350000000000\<newline>        }\<newline>      ]\<newline>    },\<newline>''
     @ ''    {\<newline>      "timestamp": "2024-01-16T10:30:00Z",\<newline>''
     @ ''      "disks": [\<newline>        {\<newline>          "drive": "C:'' @ [CHR 0x5C, CHR 0x5C] @ ''",\<newline>''
     @ ''          "total_space": 500000000000,\<newline>          "free_space": 140000000000,\<newline>''
     @ ''          "used_space": 360000000000\<newline>        }\<newline>      ]\<newline>    }\<newline>  ]\<newline>}''\<close>

text \<open>
  The library at these two histories and two texts. It stands for \<open>encoding/json\<close>
  in the examples only: there every other text fails to parse, as the prefixes of the
  two texts and the text \<open>{\<close> do in the library, and no other history is written.
\<close>

definition json_samples :: encoding_json where
  "json_samples =
     \<lparr>MarshalIndent =
        (\<lambda>h. if h = readme_history then Inr readme_text
             else if h = append_snapshot readme_history later_snapshot then Inr later_text
             else Inl MarshalerError),
      Unmarshal =
        (\<lambda>data. if data = readme_text then Inr readme_history
                else if data = later_text then Inr (append_snapshot readme_history later_snapshot)
                else Inl SyntaxError)\<rparr>"

text \<open>The dashboard's model at its start, on the file with the two snapshots.\<close>

definition sample_model :: Model where
  "sample_model = NewModel json_samples (Bytes later_text)"

text \<open>A terminal without styles that draws nothing and labels an instant by its number.\<close>

definition plain :: presentation where
  "plain =
     \<lparr>headerStyle = (\<lambda>text. text),
      Format = (\<lambda>t. sprintf_d (nat t)),
      chart = (\<lambda>selectedDrive dataPoints timeLabels height' width'. []),
      legend = (\<lambda>drives selected. [])\<rparr>"

text \<open>
  Snapshots at \<open>T\<close>, \<open>T + 1h\<close> and \<open>T + 2h\<close> with the drive \<open>C:\<close> missing from
  the last one, and snapshots of \<open>C:\<close> at \<open>T\<close>, \<open>T + 1h\<close>, \<open>T + 13h\<close> and
  \<open>T + 14h\<close>; \<open>T\<close> is 2024-01-15T10:30:00Z.
\<close>

definition other_disk :: DiskInfo where
  "other_disk =
     \<lparr>Drive = ''D:'' @ [CHR 0x5C], TotalSpace = 1000000000000, FreeSpace = 900000000000,
      UsedSpace = 100000000000\<rparr>"

definition gap_snapshots :: "Snapshot list" where
  "gap_snapshots =
     [\<lparr>Timestamp = 63840911400000000000, Disks = [readme_disk, other_disk]\<rparr>,
      \<lparr>Timestamp = 63840911400000000000 + Hour, Disks = [readme_disk, other_disk]\<rparr>,
      \<lparr>Timestamp = 63840911400000000000 + 2 * Hour, Disks = [other_disk]\<rparr>]"

definition hourly_snapshots :: "Snapshot list" where
  "hourly_snapshots =
     [\<lparr>Timestamp = 63840911400000000000, Disks = [readme_disk]\<rparr>,
      \<lparr>Timestamp = 63840911400000000000 + Hour, Disks = [readme_disk]\<rparr>,
      \<lparr>Timestamp = 63840911400000000000 + 13 * Hour, Disks = [readme_disk]\<rparr>,
      \<lparr>Timestamp = 63840911400000000000 + 14 * Hour, Disks = [readme_disk]\<rparr>]"

section \<open>Properties of formatBytes\<close>

lemma sprintf_d_digit: "n < 10 \<Longrightarrow> sprintf_d n = [''0123456789'' ! n]"
  by (simp add: sprintf_d.simps)

lemma sprintf_d_more:
  "10 \<le> n \<Longrightarrow> sprintf_d n = sprintf_d (n div 10) @ [''0123456789'' ! (n mod 10)]"
  by (subst sprintf_d.simps) simp

lemma round_half_even_quotient:
  assumes "0 < b"
  shows "round_half_even (of_nat a / of_nat b) =
     (if b < 2 * (a mod b) \<or> (2 * (a mod b) = b \<and> odd (a div b)) then a div b + 1 else a div b)"
proof -
  have fl: "nat \<lfloor>(of_nat a / of_nat b :: rat)\<rfloor> = a div b"
    by (simp add: floor_divide_of_nat_eq)
  have "(of_nat a :: rat) = of_nat (b * (a div b) + a mod b)"
    by simp
  then have "(of_nat a :: rat) = of_nat b * of_nat (a div b) + of_nat (a mod b)"
    by (simp only: of_nat_add of_nat_mult)
  then have fr: "(of_nat a / of_nat b :: rat) - of_nat (a div b) = of_nat (a mod b) / of_nat b"
    using assms by (simp add: field_simps)
  have c1: "(1 / 2 < (of_nat (a mod b) / of_nat b :: rat)) = (b < 2 * (a mod b))"
  proof -
    have "(1 / 2 < (of_nat (a mod b) / of_nat b :: rat)) = ((of_nat b :: rat) < of_nat (2 * (a mod b)))"
      using assms by (simp add: field_simps)
    then show ?thesis by (simp only: of_nat_less_iff)
  qed
  have c2: "((of_nat (a mod b) / of_nat b :: rat) = 1 / 2) = (2 * (a mod b) = b)"
  proof -
    have "((of_nat (a mod b) / of_nat b :: rat) = 1 / 2) = ((of_nat (2 * (a mod b)) :: rat) = of_nat b)"
      using assms by (auto simp add: field_simps)
    then show ?thesis by (simp only: of_nat_eq_iff)
  qed
  show ?thesis
    unfolding round_half_even_def Let_def fl fr c1 c2 by simp
qed

lemma sprintf_f1_quotient:
  "0 < b \<Longrightarrow> sprintf_f1 (of_nat a / of_nat b) =
     (let t = (if b < 2 * (a * 10 mod b) \<or> (2 * (a * 10 mod b) = b \<and> odd (a * 10 div b))
               then a * 10 div b + 1 else a * 10 div b)
      in sprintf_d (t div 10) @ ''.'' @ [''0123456789'' ! (t mod 10)])"
  using round_half_even_quotient [of b "a * 10"]
  by (simp add: sprintf_f1_def Let_def)

lemma pow1024_ge: "(1024::nat) \<le> 1024 ^ Suc k"
proof -
  have "(1::nat) \<le> 1024 ^ k" by simp
  then have "(1024::nat) * 1 \<le> 1024 * 1024 ^ k" by (rule mult_le_mono2)
  then show ?thesis by simp
qed

lemma div1024_bounds:
  fixes m :: nat
  assumes "1024 ^ Suc k \<le> m" and "m < 1024 ^ Suc (Suc k)"
  shows "1024 ^ k \<le> m div 1024" and "m div 1024 < 1024 ^ Suc k"
proof -
  have "1024 ^ k * 1024 \<le> m" using assms(1) by (simp add: mult.commute)
  then have "1024 ^ k * 1024 div 1024 \<le> m div 1024" by (rule div_le_mono)
  then show "1024 ^ k \<le> m div 1024" by simp
  have "m < 1024 ^ Suc k * 1024" using assms(2) by (simp add: mult.commute)
  then show "m div 1024 < 1024 ^ Suc k"
    by (simp add: less_mult_imp_div_less)
qed

lemma formatBytes_loop_steps:
  "1024 ^ k \<le> unat n \<Longrightarrow> unat n < 1024 ^ Suc k \<Longrightarrow>
   formatBytes_loop n d e = (d * 1024 ^ k, e + k)"
proof (induction k arbitrary: n d e)
  case 0
  then have "\<not> 1024 \<le> n"
    by (simp add: word_le_nat_alt)
  then show ?case
    by (subst formatBytes_loop.simps) simp
next
  case (Suc k)
  from Suc.prems(1) pow1024_ge [of k] have big: "1024 \<le> unat n"
    by (rule_tac order_trans)
  then have le: "1024 \<le> n"
    by (simp add: word_le_nat_alt)
  have u: "unat (n div 1024) = unat n div 1024"
    by (simp add: unat_div)
  have lo: "1024 ^ k \<le> unat (n div 1024)"
    unfolding u using Suc.prems by (rule div1024_bounds)
  have hi: "unat (n div 1024) < 1024 ^ Suc k"
    unfolding u using Suc.prems by (rule div1024_bounds)
  have "formatBytes_loop n d e = formatBytes_loop (n div 1024) (d * 1024) (e + 1)"
    using le by (subst formatBytes_loop.simps) simp
  also have "\<dots> = (d * 1024 * 1024 ^ k, e + 1 + k)"
    by (rule Suc.IH [OF lo hi])
  finally show ?case
    by (simp add: mult.assoc)
qed

lemma bit_length_numeral:
  "bit_length (numeral (Num.Bit0 n)) = Suc (bit_length (numeral n))"
  "bit_length (numeral (Num.Bit1 n)) = Suc (bit_length (numeral n))"
  "bit_length (Suc 0) = 1"
  "bit_length 0 = 0"
  by (subst bit_length.simps, simp)+

lemma unit_divisor:
  assumes "k \<le> 5"
  shows "float64_of_uint64 (1024 * 1024 ^ k) = 1024 ^ Suc k"
proof -
  from assms consider "k = 0" | "k = 1" | "k = 2" | "k = 3" | "k = 4" | "k = 5"
    by linarith
  then show ?thesis
    by cases
      (simp_all add: float64_of_uint64_def round_to_53_bits_def bit_length_numeral)
qed

lemma formatBytes_small:
  "bytes < 1024 \<Longrightarrow> formatBytes bytes = Inr (sprintf_d (unat bytes) @ '' B'')"
  by (simp add: formatBytes_def)

lemma formatBytes_scaled:
  assumes k: "k \<le> 5"
    and lo: "1024 ^ Suc k \<le> unat bytes"
    and hi: "unat bytes < 1024 ^ Suc (Suc k)"
  shows "formatBytes bytes =
    Inr (sprintf_f1 (float64_of_uint64 bytes / 1024 ^ Suc k) @ '' '' @ [''KMGTPE'' ! k] @ ''B'')"
proof -
  from lo pow1024_ge [of k] have "1024 \<le> unat bytes"
    by (rule_tac order_trans)
  then have nsmall: "\<not> bytes < 1024"
    by (simp add: word_less_nat_alt)
  have u: "unat (bytes div 1024) = unat bytes div 1024"
    by (simp add: unat_div)
  have l: "formatBytes_loop (bytes div 1024) 1024 0 = (1024 * 1024 ^ k, 0 + k)"
    by (rule formatBytes_loop_steps; unfold u; rule div1024_bounds [OF lo hi])
  from k have "k < length ''KMGTPE''"
    by simp
  with nsmall l unit_divisor [OF k] show ?thesis
    by (simp add: formatBytes_def)
qed

lemma digit_nth: "''0123456789'' ! (n mod 10) \<in> set ''0123456789''"
  by (rule nth_mem) simp

lemma sprintf_d_digits: "sprintf_d n \<noteq> [] \<and> set (sprintf_d n) \<subseteq> set ''0123456789''"
proof (induction n rule: sprintf_d.induct)
  case (1 n)
  show ?case
  proof (cases "n < 10")
    case True
    then have "''0123456789'' ! n \<in> set ''0123456789''"
      by (intro nth_mem) simp
    with True show ?thesis
      by (simp add: sprintf_d_digit)
  next
    case False
    with 1 digit_nth [of n] show ?thesis
      by (simp add: sprintf_d_more)
  qed
qed

lemma sprintf_f1_shape:
  "\<exists>ip d. sprintf_f1 x = ip @ ''.'' @ [d] \<and> ip \<noteq> [] \<and>
     set ip \<subseteq> set ''0123456789'' \<and> d \<in> set ''0123456789''"
  unfolding sprintf_f1_def Let_def
  using sprintf_d_digits digit_nth by blast

lemma unit_rangeI:
  fixes m :: nat
  shows "k \<le> 5 \<Longrightarrow> 1024 ^ Suc k \<le> m \<Longrightarrow> m < 1024 ^ Suc (Suc k) \<Longrightarrow>
    \<exists>k\<le>5. 1024 ^ Suc k \<le> m \<and> m < 1024 ^ Suc (Suc k)"
  by blast

lemma unit_range:
  fixes m :: nat
  assumes lo: "1024 \<le> m" and hi: "m < 2 ^ 64"
  shows "\<exists>k\<le>5. 1024 ^ Suc k \<le> m \<and> m < 1024 ^ Suc (Suc k)"
proof (cases "m < 1048576")
  case True
  with lo show ?thesis by (intro unit_rangeI [of 0]) simp_all
next
  case a: False
  show ?thesis
  proof (cases "m < 1073741824")
    case True
    with a show ?thesis by (intro unit_rangeI [of 1]) simp_all
  next
    case b: False
    show ?thesis
    proof (cases "m < 1099511627776")
      case True
      with b show ?thesis by (intro unit_rangeI [of 2]) simp_all
    next
      case c: False
      show ?thesis
      proof (cases "m < 1125899906842624")
        case True
        with c show ?thesis by (intro unit_rangeI [of 3]) simp_all
      next
        case d: False
        show ?thesis
        proof (cases "m < 1152921504606846976")
          case True
          with d show ?thesis by (intro unit_rangeI [of 4]) simp_all
        next
          case False
          with hi show ?thesis by (intro unit_rangeI [of 5]) simp_all
        qed
      qed
    qed
  qed
qed

lemma formatBytes_shape:
  assumes "1024 \<le> bytes"
  shows "\<exists>ip d u. formatBytes bytes = Inr (ip @ ''.'' @ [d] @ '' '' @ [u] @ ''B'') \<and>
     ip \<noteq> [] \<and> set ip \<subseteq> set ''0123456789'' \<and> d \<in> set ''0123456789'' \<and>
     u \<in> set ''KMGTPE''"
proof -
  from assms have "1024 \<le> unat bytes"
    by (simp add: word_le_nat_alt)
  moreover have "unat bytes < 2 ^ 64"
    using unsigned_less [of bytes] by simp
  ultimately obtain k where k: "k \<le> 5"
    and r: "1024 ^ Suc k \<le> unat bytes" "unat bytes < 1024 ^ Suc (Suc k)"
    using unit_range by blast
  from k have "''KMGTPE'' ! k \<in> set ''KMGTPE''"
    by (intro nth_mem) simp
  with formatBytes_scaled [OF k r] sprintf_f1_shape [of "float64_of_uint64 bytes / 1024 ^ Suc k"]
  show ?thesis
    by (metis append_assoc)
qed

lemma formatBytes_1024: "formatBytes 1024 = Inr ''1.0 KB''"
proof -
  have "formatBytes 1024 =
      Inr (sprintf_f1 (float64_of_uint64 1024 / 1024 ^ Suc 0) @ '' '' @ [''KMGTPE'' ! 0] @ ''B'')"
    by (rule formatBytes_scaled) simp_all
  moreover have "float64_of_uint64 1024 / 1024 ^ Suc 0 = of_nat 1024 / of_nat 1024"
    by (simp add: float64_of_uint64_def round_to_53_bits_def)
  moreover have "sprintf_f1 (of_nat 1024 / of_nat 1024) = ''1.0''"
    by (subst sprintf_f1_quotient) (simp_all add: sprintf_d_digit)
  ultimately show ?thesis
    by simp
qed

lemma formatBytes_1536: "formatBytes 1536 = Inr ''1.5 KB''"
proof -
  have "formatBytes 1536 =
      Inr (sprintf_f1 (float64_of_uint64 1536 / 1024 ^ Suc 0) @ '' '' @ [''KMGTPE'' ! 0] @ ''B'')"
    by (rule formatBytes_scaled) simp_all
  moreover have "float64_of_uint64 1536 / 1024 ^ Suc 0 = of_nat 1536 / of_nat 1024"
    by (simp add: float64_of_uint64_def round_to_53_bits_def)
  moreover have "sprintf_f1 (of_nat 1536 / of_nat 1024) = ''1.5''"
    by (subst sprintf_f1_quotient) (simp_all add: sprintf_d_digit)
  ultimately show ?thesis
    by simp
qed

lemma formatBytes_0: "formatBytes 0 = Inr ''0 B''"
  by (simp add: formatBytes_small sprintf_d_digit)

lemma formatBytes_1023: "formatBytes 1023 = Inr ''1023 B''"
  by (simp add: formatBytes_small sprintf_d_digit sprintf_d_more)

section \<open>Properties of the collection cycle\<close>

lemma run_workers_progress:
  "fst (run_workers sched ps ch) = map (\<lambda>i. drop (count_list sched i) (ps ! i)) [0..<length ps]"
proof (induction sched arbitrary: ps ch)
  case Nil
  show ?case by (simp add: map_nth)
next
  case (Cons i sched)
  show ?case
  proof (cases "i < length ps")
    case False
    then have "\<And>j. j < length ps \<Longrightarrow> count_list (i # sched) j = count_list sched j"
      by auto
    with False Cons.IH [of ps ch] show ?thesis
      by simp
  next
    case True
    show ?thesis
    proof (cases "ps ! i")
      case Nil
      have "\<And>j. j < length ps \<Longrightarrow>
          drop (count_list (i # sched) j) (ps ! j) = drop (count_list sched j) (ps ! j)"
        using Nil by auto
      with True Nil Cons.IH [of ps ch] show ?thesis
        by simp
    next
      case (Cons s rest)
      have "\<And>j. j < length ps \<Longrightarrow>
          drop (count_list (i # sched) j) (ps ! j) = drop (count_list sched j) (ps[i := rest] ! j)"
        using Cons True by (auto simp: nth_list_update)
      with True Cons Cons.IH [of "ps[i := rest]" "send_msg s ch"] show ?thesis
        by simp
    qed
  qed
qed

lemma pending_results_update:
  "i < length ps \<Longrightarrow> ps ! i = s # rest \<Longrightarrow>
   mset (pending_results ps) = mset (to_results s) + mset (pending_results (ps[i := rest]))"
proof (induction ps arbitrary: i)
  case Nil
  then show ?case by simp
next
  case (Cons p ps)
  then show ?case
    by (cases i) (auto simp: pending_results_def)
qed

lemma pending_errors_update:
  "i < length ps \<Longrightarrow> ps ! i = s # rest \<Longrightarrow>
   mset (pending_errors ps) = mset (to_errors s) + mset (pending_errors (ps[i := rest]))"
proof (induction ps arbitrary: i)
  case Nil
  then show ?case by simp
next
  case (Cons p ps)
  then show ?case
    by (cases i) (auto simp: pending_errors_def)
qed

lemma send_msg_results: "results (send_msg s ch) = results ch @ to_results s"
  by (cases s) simp_all

lemma send_msg_errors: "errors (send_msg s ch) = errors ch @ to_errors s"
  by (cases s) simp_all

lemma run_workers_results:
  "run_workers sched ps ch = (ps', ch') \<Longrightarrow>
   mset (results ch') + mset (pending_results ps') = mset (results ch) + mset (pending_results ps)"
proof (induction sched arbitrary: ps ch)
  case Nil
  then show ?case by simp
next
  case (Cons i sched)
  show ?case
  proof (cases "i < length ps")
    case False
    with Cons show ?thesis by simp
  next
    case True
    show ?thesis
    proof (cases "ps ! i")
      case Nil
      with True Cons show ?thesis by simp
    next
      case c: (Cons s rest)
      with True Cons.prems have r: "run_workers sched (ps[i := rest]) (send_msg s ch) = (ps', ch')"
        by simp
      show ?thesis
        using Cons.IH [OF r] pending_results_update [OF True c]
        by (simp add: send_msg_results)
    qed
  qed
qed

lemma run_workers_errors:
  "run_workers sched ps ch = (ps', ch') \<Longrightarrow>
   mset (errors ch') + mset (pending_errors ps') = mset (errors ch) + mset (pending_errors ps)"
proof (induction sched arbitrary: ps ch)
  case Nil
  then show ?case by simp
next
  case (Cons i sched)
  show ?case
  proof (cases "i < length ps")
    case False
    with Cons show ?thesis by simp
  next
    case True
    show ?thesis
    proof (cases "ps ! i")
      case Nil
      with True Cons show ?thesis by simp
    next
      case c: (Cons s rest)
      with True Cons.prems have r: "run_workers sched (ps[i := rest]) (send_msg s ch) = (ps', ch')"
        by simp
      show ?thesis
        using Cons.IH [OF r] pending_errors_update [OF True c]
        by (simp add: send_msg_errors)
    qed
  qed
qed

lemma pending_results_workers: "pending_results (map worker outs) = map result_msg outs"
proof (induction outs)
  case Nil
  show ?case by (simp add: pending_results_def)
next
  case (Cons out outs)
  then show ?case by (cases out) (simp_all add: pending_results_def)
qed

lemma pending_errors_workers: "pending_errors (map worker outs) = map error_msg outs"
proof (induction outs)
  case Nil
  show ?case by (simp add: pending_errors_def)
next
  case (Cons out outs)
  then show ?case by (cases out) (simp_all add: pending_errors_def)
qed

lemma length_worker: "length (worker out) = 2"
  by (cases out) simp_all

lemma complete_finishes:
  assumes "complete (length outs) sched"
    and "run_workers sched (map worker outs) ch = (ps', ch')"
  shows "pending_results ps' = [] \<and> pending_errors ps' = []"
proof -
  have ps': "ps' = map (\<lambda>i. drop (count_list sched i) (map worker outs ! i)) [0..<length outs]"
    using run_workers_progress [of sched "map worker outs" ch] assms(2) by simp
  have "\<And>i. i < length outs \<Longrightarrow> drop (count_list sched i) (map worker outs ! i) = []"
    using assms(1) by (simp add: complete_def list_all_iff length_worker)
  then have "ps' = map (\<lambda>i. []) [0..<length outs]"
    unfolding ps' by simp
  then show ?thesis
    by (simp add: pending_results_def pending_errors_def)
qed

lemma complete_channels:
  assumes "complete (length outs) sched"
    and "run_workers sched (map worker outs) \<lparr>results = [], errors = []\<rparr> = (ps', ch')"
  shows "mset (results ch') = mset (map result_msg outs)"
    and "mset (errors ch') = mset (map error_msg outs)"
  using run_workers_results [OF assms(2)] run_workers_errors [OF assms(2)]
    complete_finishes [OF assms]
  by (simp_all add: pending_results_workers pending_errors_workers)

lemma somes_filter: "somes xs = map the (filter (\<lambda>x. x \<noteq> None) xs)"
  by (induction xs rule: somes.induct) simp_all

lemma mset_somes: "mset xs = mset ys \<Longrightarrow> mset (somes xs) = mset (somes ys)"
proof -
  assume "mset xs = mset ys"
  then have "filter_mset (\<lambda>x. x \<noteq> None) (mset xs) = filter_mset (\<lambda>x. x \<noteq> None) (mset ys)"
    by simp
  then have "image_mset the (mset (filter (\<lambda>x. x \<noteq> None) xs)) =
      image_mset the (mset (filter (\<lambda>x. x \<noteq> None) ys))"
    by simp
  then show ?thesis
    by (simp add: somes_filter)
qed


lemma collect_returns:
  "n \<le> length (results ch) \<Longrightarrow> n \<le> length (errors ch) \<Longrightarrow>
   \<exists>r. collect n ch disks stderr = Some r"
proof (induction n arbitrary: ch disks stderr)
  case 0
  show ?case by simp
next
  case (Suc n)
  from Suc.prems obtain info rs err es where c: "results ch = info # rs" "errors ch = err # es"
    by (cases "results ch"; cases "errors ch") auto
  with Suc.prems have l: "n \<le> length rs" "n \<le> length es"
    by simp_all
  have "\<And>d l. \<exists>r. collect n \<lparr>results = rs, errors = es\<rparr> d l = Some r"
    using Suc.IH [of "\<lparr>results = rs, errors = es\<rparr>"] l by simp
  with c show ?case
    by (cases err; cases info) simp_all
qed



lemma collect_all_errors:
  "None \<notin> set (errors ch) \<Longrightarrow> length (errors ch) = n \<Longrightarrow>
   collect n ch disks stderr = Some (disks', stderr') \<Longrightarrow>
   disks' = disks \<and> stderr' = stderr @ somes (errors ch)"
proof (induction n arbitrary: ch disks stderr)
  case 0
  then show ?case by simp
next
  case (Suc n)
  from Suc.prems obtain info rs err es where c: "results ch = info # rs" "errors ch = err # es"
    by (cases "results ch"; cases "errors ch") auto
  with Suc.prems obtain e where e: "err = Some e" "None \<notin> set es" and l: "length es = n"
    by (cases err) auto
  with c Suc.prems
  have "collect n \<lparr>results = rs, errors = es\<rparr> disks (stderr @ [e]) = Some (disks', stderr')"
    by simp
  from Suc.IH [OF _ _ this] e l c show ?case
    by simp
qed

lemma getAllDisksInfo_drain:
  "getAllDisksInfo K sched = drain (map (getDiskSpace K) (getAvailableDrives K)) sched"
  by (simp add: getAllDisksInfo_def drain_def comp_def Let_def)

lemma drain_run:
  "run_workers sched (map worker outs) \<lparr>results = [], errors = []\<rparr> = (ps, ch) \<Longrightarrow>
   drain outs sched = collect (length outs) ch [] []"
  by (simp add: drain_def)

lemma drain_complete:
  assumes "complete (length outs) sched"
  obtains ch where
    "drain outs sched = collect (length outs) ch [] []"
    "mset (results ch) = mset (map result_msg outs)"
    "mset (errors ch) = mset (map error_msg outs)"
proof -
  obtain ps ch where r: "run_workers sched (map worker outs) \<lparr>results = [], errors = []\<rparr> = (ps, ch)"
    by (cases "run_workers sched (map worker outs) \<lparr>results = [], errors = []\<rparr>")
  show thesis
    using drain_run [OF r] complete_channels [OF assms r] that by blast
qed

lemma drain_returns:
  assumes "complete (length outs) sched"
  shows "\<exists>disks stderr. drain outs sched = Some (disks, stderr)"
proof -
  from assms obtain ch where
    g: "drain outs sched = collect (length outs) ch [] []"
    and r: "mset (results ch) = mset (map result_msg outs)"
    and e: "mset (errors ch) = mset (map error_msg outs)"
    by (rule drain_complete)
  from r have "length (results ch) = length outs"
    by (metis length_map size_mset)
  moreover from e have "length (errors ch) = length outs"
    by (metis length_map size_mset)
  ultimately show ?thesis
    using collect_returns [of "length outs" ch "[]" "[]"] g by auto
qed


lemma error_msg_None: "(None = error_msg out) = (\<not> isl out)"
  by (cases out) auto



lemma drain_nothing: "drain [] sched = Some ([], [])"
  by (induction sched) (simp_all add: drain_def)

lemma somes_all_errors:
  "\<forall>out\<in>set outs. isl out \<Longrightarrow> somes (map error_msg outs) = map projl outs"
proof (induction outs)
  case Nil
  show ?case by simp
next
  case (Cons out outs)
  then show ?case by (cases out) simp_all
qed


lemma drain_all_fail:
  assumes c: "complete (length outs) sched"
    and f: "\<forall>out\<in>set outs. isl out"
  shows "\<exists>stderr. drain outs sched = Some ([], stderr) \<and> mset stderr = mset (map projl outs)"
proof -
  from c obtain ch where
    g: "drain outs sched = collect (length outs) ch [] []"
    and e: "mset (errors ch) = mset (map error_msg outs)"
    by (rule drain_complete)
  from drain_returns [OF c] obtain disks stderr
    where s: "drain outs sched = Some (disks, stderr)"
    by blast
  have "set (errors ch) = set (map error_msg outs)"
    using e by (metis set_mset_mset)
  with f have n: "None \<notin> set (errors ch)"
    by (auto simp: error_msg_None)
  from e have l: "length (errors ch) = length outs"
    by (metis length_map size_mset)
  from g s have "collect (length outs) ch [] [] = Some (disks, stderr)"
    by simp
  from collect_all_errors [OF n l this] have d: "disks = []" and l: "stderr = somes (errors ch)"
    by auto
  have "mset (somes (errors ch)) = mset (somes (map error_msg outs))"
    using e by (rule mset_somes)
  with s d l somes_all_errors [OF f] show ?thesis
    by simp
qed


lemma upt26: "[0..<26] = [0,1,2,3,4,5,6,7,8,9,10,11,12,13,14,15,16,17,18,19,20,21,22,23,24,25]"
  by (simp add: upt_rec)

lemma drives_one: "getAvailableDrives (one_drive reply) = [''C:'' @ [CHR 0x5C]]"
  by (simp add: getAvailableDrives_def one_drive_def upt26 getDriveType_def DRIVE_FIXED_def DRIVE_CDROM_def DRIVE_REMOTE_def)

lemma drives_none: "getAvailableDrives no_drive = []"
  by (simp add: getAvailableDrives_def no_drive_def upt26)

lemma getAllDisksInfo_returns:
  "complete (length (getAvailableDrives K)) sched \<Longrightarrow>
   \<exists>disks stderr. getAllDisksInfo K sched = Some (disks, stderr)"
  unfolding getAllDisksInfo_drain by (rule drain_returns) simp


lemma getAllDisksInfo_no_drives:
  "getAvailableDrives K = [] \<Longrightarrow> getAllDisksInfo K sched = Some ([], [])"
  by (simp add: getAllDisksInfo_drain drain_nothing)

lemma getAllDisksInfo_all_fail:
  assumes "complete (length (getAvailableDrives K)) sched"
    and "\<forall>drive\<in>set (getAvailableDrives K). isl (getDiskSpace K drive)"
  shows "\<exists>stderr. getAllDisksInfo K sched = Some ([], stderr) \<and>
    mset stderr = mset (map (\<lambda>drive. projl (getDiskSpace K drive)) (getAvailableDrives K))"
  using drain_all_fail [of "map (getDiskSpace K) (getAvailableDrives K)" sched] assms
  by (simp add: getAllDisksInfo_drain comp_def)















lemma timeout_probe:
  "getDiskSpace (one_drive StillRunning) (''C:'' @ [CHR 0x5C]) =
     Inl (TimeoutGettingDiskInfo (''C:'' @ [CHR 0x5C]))"
  by (simp add: getDiskSpace_def one_drive_def)

lemma drives_two: "getAvailableDrives two_drives = [''C:'' @ [CHR 0x5C], ''D:'' @ [CHR 0x5C]]"
  by (simp add: getAvailableDrives_def two_drives_def upt26 getDriveType_def DRIVE_FIXED_def
      DRIVE_CDROM_def DRIVE_REMOTE_def)

text \<open>
  The collecting loop reads the two channels in step, so it keeps a result only when
  the value that arrives with it on \<open>errors\<close> is nil. Where the goroutines send one
  after the other, the result of \<open>C:\<close> is returned beside the error of \<open>D:\<close>. Where
  the two sends of the failing goroutine fall between the two sends of the successful
  one, the result of \<open>C:\<close> meets the error of \<open>D:\<close> and is dropped.
\<close>

lemma sends_in_turn_keep_result:
  "getAllDisksInfo two_drives (in_turn [0, 1]) =
     Some ([readme_disk], [FailedToGetDiskInfo (''D:'' @ [CHR 0x5C])])"
  unfolding getAllDisksInfo_def drives_two
  by (simp add: in_turn_def getDiskSpace_def two_drives_def readme_disk_def)

lemma interleaved_sends_drop_result:
  "complete (length (getAvailableDrives two_drives)) [0, 1, 1, 0] \<and>
   getAllDisksInfo two_drives [0, 1, 1, 0] =
     Some ([], [FailedToGetDiskInfo (''D:'' @ [CHR 0x5C])])"
  unfolding getAllDisksInfo_def drives_two
  by (simp add: complete_def getDiskSpace_def two_drives_def)

section \<open>Properties of the history file\<close>

lemma texts_differ: "readme_text \<noteq> later_text" "later_text \<noteq> readme_text"
  by (simp_all add: readme_text_def later_text_def)

lemma histories_differ: "append_snapshot readme_history later_snapshot \<noteq> readme_history"
  by (simp add: append_snapshot_def readme_history_def)

lemma sample_encode:
  "MarshalIndent json_samples readme_history = Inr readme_text"
  "MarshalIndent json_samples (append_snapshot readme_history later_snapshot) = Inr later_text"
  by (simp_all add: json_samples_def histories_differ)

lemma sample_decode:
  "Unmarshal json_samples readme_text = Inr readme_history"
  "Unmarshal json_samples later_text = Inr (append_snapshot readme_history later_snapshot)"
  by (simp_all add: json_samples_def texts_differ)

lemma loadHistory_absent: "loadHistory J Absent = Inr \<lparr>Snapshots = []\<rparr>"
  by (simp add: loadHistory_def ReadFile_def IsNotExist_def)

lemma loadHistory_locked: "loadHistory J Locked = Inl (LibraryError PermissionDenied)"
  by (simp add: loadHistory_def ReadFile_def IsNotExist_def)

lemma loadHistory_bytes:
  "loadHistory J (Bytes data) =
     (case Unmarshal J data of Inl e \<Rightarrow> Inl (LibraryError e) | Inr h \<Rightarrow> Inr h)"
  by (simp add: loadHistory_def ReadFile_def)

lemma saveHistory_done:
  assumes "saveHistory J h f = (None, f')"
  shows "\<exists>data. MarshalIndent J h = Inr data \<and> f' = Bytes data \<and> f \<noteq> Locked"
  using assms
  by (cases "MarshalIndent J h"; cases f) (auto simp: saveHistory_def WriteFile_def)

lemma saveHistory_writes:
  "MarshalIndent J h = Inr data \<Longrightarrow> f \<noteq> Locked \<Longrightarrow>
   saveHistory J h f = (None, Bytes data)"
  by (cases f) (auto simp: saveHistory_def WriteFile_def)

lemma saveHistory_unencodable:
  "MarshalIndent J h = Inl e \<Longrightarrow> saveHistory J h f = (Some (LibraryError e), f)"
  by (simp add: saveHistory_def)

lemma saveHistory_stopped_prefix:
  "MarshalIndent J h = Inr data \<Longrightarrow> f \<noteq> Locked \<Longrightarrow>
   saveHistory_stopped n J h f = Bytes (take n data)"
  by (cases f) (auto simp: saveHistory_stopped_def WriteFile_stopped_def)



lemma collectAndSave_nothing:
  "getAllDisksInfo K sched = Some ([], stderr) \<Longrightarrow>
   collectAndSave K sched now J f = Some (Some NoDrivesFound, f)"
  by (simp add: collectAndSave_def)

lemma loadHistory_error: "loadHistory J f = Inl e \<Longrightarrow> e \<noteq> NoDrivesFound"
  by (cases f) (auto simp: loadHistory_def ReadFile_def IsNotExist_def split: sum.splits if_splits)

lemma saveHistory_error: "saveHistory J h f = (Some e, f') \<Longrightarrow> e \<noteq> NoDrivesFound"
  by (cases f) (auto simp: saveHistory_def WriteFile_def split: sum.splits)

lemma collectAndSave_signal:
  assumes "collectAndSave K sched now J f = Some (Some NoDrivesFound, f')"
  shows "(\<exists>stderr. getAllDisksInfo K sched = Some ([], stderr)) \<and> f' = f"
proof -
  from assms obtain disks stderr where g: "getAllDisksInfo K sched = Some (disks, stderr)"
    by (cases "getAllDisksInfo K sched") (auto simp: collectAndSave_def)
  show ?thesis
  proof (cases "disks = []")
    case True
    with g assms show ?thesis
      by (simp add: collectAndSave_def)
  next
    case False
    show ?thesis
    proof (cases "loadHistory J f")
      case (Inl e)
      with g False assms loadHistory_error [OF Inl] show ?thesis
        by (simp add: collectAndSave_def)
    next
      case (Inr h)
      with g False assms
        saveHistory_error [of J "append_snapshot h \<lparr>Timestamp = now, Disks = disks\<rparr>" f NoDrivesFound f']
      show ?thesis
        by (simp add: collectAndSave_def)
    qed
  qed
qed

lemma collectAndSave_measured:
  assumes "collectAndSave K sched now J f = Some (None, f')"
  shows "\<exists>disks stderr. getAllDisksInfo K sched = Some (disks, stderr) \<and> disks \<noteq> []"
proof -
  from assms obtain disks stderr where g: "getAllDisksInfo K sched = Some (disks, stderr)"
    by (cases "getAllDisksInfo K sched") (auto simp: collectAndSave_def)
  with assms have "disks \<noteq> []"
    by (auto simp: collectAndSave_def)
  with g show ?thesis
    by blast
qed

section \<open>Properties of the series and the labels\<close>



lemma containing_Nil: "containing drive [] = []"
  by (simp add: containing_def map_filter_simps)

lemma containing_Cons:
  "containing drive (snapshot # rest) =
     (case first_disk drive (Disks snapshot) of
        None \<Rightarrow> containing drive rest
      | Some disk \<Rightarrow> disk # containing drive rest)"
  by (simp add: containing_def map_filter_simps split: option.split)

lemma drive_data_series:
  "drive_data drive snapshots data = data @ map spaceGB (containing drive snapshots)"
  by (induction snapshots arbitrary: data)
    (simp_all add: containing_Nil containing_Cons split: option.split)

lemma gather_lookup:
  "gather snapshots drives g drive =
     (if drive \<in> set drives then Some (drive_data drive snapshots []) else g drive)"
  by (induction drives arbitrary: g) auto

lemma first_disk_None: "(first_disk drive disks = None) = (drive \<notin> Drive ` set disks)"
  by (induction disks) auto

lemma first_disk_Some: "first_disk drive disks = Some disk \<Longrightarrow> Drive disk = drive \<and> disk \<in> set disks"
  by (induction disks) (auto split: if_splits)

lemma set_unique_drives:
  "set (unique_drives snapshots) = (\<Union>snapshot\<in>set snapshots. Drive ` set (Disks snapshot))"
  by (simp add: unique_drives_def)

lemma containing_absent:
  "drive \<notin> set (unique_drives snapshots) \<Longrightarrow> containing drive snapshots = []"
  unfolding set_unique_drives
  by (induction snapshots) (auto simp: containing_Nil containing_Cons first_disk_None split: option.split)

lemma updateChart_series:
  assumes "history m = Some h" and "2 \<le> length (Snapshots h)"
  shows "\<exists>m'. updateChart m = Inr m' \<and> history m' = Some h \<and>
    (\<forall>drive. series_of m' drive = map spaceGB (containing drive (Snapshots h)))"
proof -
  let ?m' = "m\<lparr>graphs := gather (Snapshots h) (unique_drives (Snapshots h)) Map.empty\<rparr>"
  from assms have "updateChart m = Inr ?m'"
    by (simp add: updateChart_def)
  moreover have "series_of ?m' drive = map spaceGB (containing drive (Snapshots h))" for drive
    by (simp add: series_of_def gather_lookup drive_data_series containing_absent)
  ultimately show ?thesis
    using assms(1) by auto
qed

lemma collect_points_series:
  "collect_points P drive n i snapshots (dataPoints, timeLabels, lastTime) = (dataPoints', timeLabels', lastTime') \<Longrightarrow>
   dataPoints' = dataPoints @ map spaceGB (containing drive snapshots) \<and>
   length timeLabels' = length timeLabels + length (containing drive snapshots)"
proof (induction snapshots arbitrary: i dataPoints timeLabels lastTime)
  case Nil
  then show ?case by (simp add: containing_Nil)
next
  case (Cons snapshot rest)
  show ?case
  proof (cases "first_disk drive (Disks snapshot)")
    case None
    with Cons.prems Cons.IH [of "i + 1" dataPoints timeLabels lastTime] show ?thesis
      by (simp add: containing_Cons)
  next
    case (Some disk)
    show ?thesis
    proof (cases "i = 0 \<or> int i = int n - 1 \<or> 12 * Hour < Sub (Timestamp snapshot) lastTime")
      case True
      with Some Cons.prems
        Cons.IH [of "i + 1" "dataPoints @ [spaceGB disk]"
          "timeLabels @ [Format P (Timestamp snapshot)]" "Timestamp snapshot"]
      show ?thesis
        by (simp add: containing_Cons)
    next
      case False
      with Some Cons.prems
        Cons.IH [of "i + 1" "dataPoints @ [spaceGB disk]" "timeLabels @ [[]]" lastTime]
      show ?thesis
        by (simp add: containing_Cons)
    qed
  qed
qed

lemma spaceGB_exact:
  "unat (FreeSpace disk) < 2 ^ 53 \<Longrightarrow> spaceGB disk = of_nat (unat (FreeSpace disk)) / 1024 ^ 3"
  by (simp add: spaceGB_def float64_of_uint64_def round_to_53_bits_def power3_eq_cube)

lemma first_disk_find: "first_disk drive disks = find (\<lambda>disk. Drive disk = drive) disks"
  by (induction disks) auto

lemma containing_filter:
  "containing drive snapshots =
     map (\<lambda>snapshot. the (find (\<lambda>disk. Drive disk = drive) (Disks snapshot)))
       (filter (\<lambda>snapshot. drive \<in> Drive ` set (Disks snapshot)) snapshots)"
proof (induction snapshots)
  case Nil
  show ?case by (simp add: containing_Nil)
next
  case (Cons snapshot rest)
  show ?case
  proof (cases "first_disk drive (Disks snapshot)")
    case None
    then have "drive \<notin> Drive ` set (Disks snapshot)"
      by (simp add: first_disk_None)
    with None Cons show ?thesis
      by (simp add: containing_Cons)
  next
    case (Some disk)
    then have "drive \<in> Drive ` set (Disks snapshot)"
      using first_disk_None [of drive "Disks snapshot"] by simp
    with Some Cons show ?thesis
      by (simp add: containing_Cons first_disk_find)
  qed
qed

lemma find_in_disks:
  fixes disks :: "DiskInfo list"
  shows "drive \<in> Drive ` set disks \<Longrightarrow> the (find (\<lambda>disk. Drive disk = drive) disks) \<in> set disks"
  by (induction disks) auto

lemma spec_series_exact:
  assumes "\<forall>snapshot\<in>set snapshots. \<forall>disk\<in>set (Disks snapshot). unat (FreeSpace disk) < 2 ^ 53"
  shows "map spaceGB (containing drive snapshots) = spec_series drive snapshots"
  unfolding containing_filter spec_series_def map_map
proof (rule map_cong [OF refl])
  fix snapshot
  assume "snapshot \<in> set (filter (\<lambda>snapshot. drive \<in> Drive ` set (Disks snapshot)) snapshots)"
  then have "snapshot \<in> set snapshots" "drive \<in> Drive ` set (Disks snapshot)"
    by simp_all
  with assms find_in_disks [of drive "Disks snapshot"]
  have "unat (FreeSpace (the (find (\<lambda>disk. Drive disk = drive) (Disks snapshot)))) < 2 ^ 53"
    by blast
  then show "(spaceGB \<circ> (\<lambda>snapshot. the (find (\<lambda>disk. Drive disk = drive) (Disks snapshot)))) snapshot =
      of_nat (unat (FreeSpace (the (find (\<lambda>disk. Drive disk = drive) (Disks snapshot))))) / 1024 ^ 3"
    by (simp add: spaceGB_exact)
qed

lemma sample_model_history:
  "history sample_model = Some (append_snapshot readme_history later_snapshot)"
  by (simp add: sample_model_def NewModel_def loadHistory_bytes sample_decode)

lemma sample_snapshots:
  "Snapshots (append_snapshot readme_history later_snapshot) = [readme_snapshot, later_snapshot]"
  by (simp add: append_snapshot_def readme_history_def)

lemma filter_last_nonempty:
  "rest \<noteq> [] \<Longrightarrow> Q (last rest) \<Longrightarrow> filter Q rest \<noteq> []"
  by (metis filter_empty_conv last_in_set)

lemma collect_points_labels:
  assumes "i + length snapshots = n"
    and "snapshots \<noteq> [] \<longrightarrow> drive \<in> Drive ` set (Disks (last snapshots))"
    and "i = 0 \<and> snapshots \<noteq> [] \<longrightarrow> drive \<in> Drive ` set (Disks (hd snapshots))"
  shows "fst (snd (collect_points P drive n i snapshots (dataPoints, timeLabels, lastTime))) =
    timeLabels @ spec_labels P (i = 0) lastTime
      (map Timestamp (filter (\<lambda>snapshot. drive \<in> Drive ` set (Disks snapshot)) snapshots))"
  using assms
proof (induction snapshots arbitrary: i dataPoints timeLabels lastTime)
  case Nil
  show ?case by simp
next
  case (Cons snapshot rest)
  let ?has = "\<lambda>snapshot. drive \<in> Drive ` set (Disks snapshot)"
  have n: "Suc i + length rest = n"
    using Cons.prems(1) by simp
  have l: "rest \<noteq> [] \<longrightarrow> ?has (last rest)"
    using Cons.prems(2) by (cases "rest = []") simp_all
  have ih: "fst (snd (collect_points P drive n (Suc i) rest (dp, tl, lt))) =
      tl @ spec_labels P False lt (map Timestamp (filter ?has rest))" for dp tl lt
    using Cons.IH [of "Suc i" dp tl lt] n l by simp
  show ?case
  proof (cases "first_disk drive (Disks snapshot)")
    case None
    then have no: "\<not> ?has snapshot"
      by (simp add: first_disk_None)
    with Cons.prems(3) have "i \<noteq> 0"
      by auto
    with None no ih [of dataPoints timeLabels lastTime] show ?thesis
      by simp
  next
    case (Some disk)
    then have yes: "?has snapshot"
      using first_disk_None [of drive "Disks snapshot"] by simp
    have e: "(int i = int n - 1) = (filter ?has rest = [])"
    proof (cases "rest = []")
      case True
      with n show ?thesis by auto
    next
      case False
      with l have "filter ?has rest \<noteq> []"
        using filter_last_nonempty [of rest ?has] by blast
      moreover from False n have "int i \<noteq> int n - 1"
        by (cases rest) auto
      ultimately show ?thesis by simp
    qed
    show ?thesis
    proof (cases "i = 0 \<or> int i = int n - 1 \<or> 12 * Hour < Sub (Timestamp snapshot) lastTime")
      case True
      with Some yes e
        ih [of "dataPoints @ [spaceGB disk]" "timeLabels @ [Format P (Timestamp snapshot)]"
          "Timestamp snapshot"]
      show ?thesis
        by auto
    next
      case False
      with Some yes e ih [of "dataPoints @ [spaceGB disk]" "timeLabels @ [[]]" lastTime]
      show ?thesis
        by auto
    qed
  qed
qed

text \<open>
  Where the selected volume is in the first and in the last snapshot of the history,
  the labels are those of the specification's rule, one for each point of the series.
\<close>

lemma labels_follow_rule:
  assumes "snapshots \<noteq> []"
    and "drive \<in> Drive ` set (Disks (hd snapshots))"
    and "drive \<in> Drive ` set (Disks (last snapshots))"
    and "collect_points P drive (length snapshots) 0 snapshots ([], [], 0) = (dataPoints, timeLabels, lastTime)"
  shows "timeLabels = spec_labels P True 0
      (map Timestamp (filter (\<lambda>snapshot. drive \<in> Drive ` set (Disks snapshot)) snapshots)) \<and>
    length timeLabels = length dataPoints"
proof -
  have "fst (snd (collect_points P drive (length snapshots) 0 snapshots ([], [], 0))) =
      [] @ spec_labels P (0 = (0::nat)) 0
        (map Timestamp (filter (\<lambda>snapshot. drive \<in> Drive ` set (Disks snapshot)) snapshots))"
    using assms(1-3) by (intro collect_points_labels) simp_all
  moreover from collect_points_series [OF assms(4)]
  have "length timeLabels = length dataPoints"
    by simp
  ultimately show ?thesis
    using assms(4) by simp
qed

text \<open>
  The example of claim C3: one volume in snapshots at \<open>T\<close>, \<open>T + 1h\<close>, \<open>T + 13h\<close>
  and \<open>T + 14h\<close> gets labels at the positions 0, 2 and 3 and a blank at position 1.
\<close>

lemma labels_of_example:
  "fst (snd (collect_points P (''C:'' @ [CHR 0x5C]) 4 0 hourly_snapshots ([], [], 0))) =
     [Format P 63840911400000000000, [],
      Format P (63840911400000000000 + 13 * Hour), Format P (63840911400000000000 + 14 * Hour)]"
  by (simp add: hourly_snapshots_def readme_disk_def Sub_def Hour_def)

section \<open>The claims of the specification\<close>






text \<open>
  Claim C3 fails on the code where the selected volume is missing from the last
  snapshot. Snapshots at \<open>T\<close>, \<open>T + 1h\<close> and \<open>T + 2h\<close>, the volume \<open>C:\<close> in the
  first two only: the series of \<open>C:\<close> has two points, and its last point, at position
  1, gets a blank label, since the loop compares the index of the snapshot, not of the
  point, with the last index.
\<close>

theorem last_point_unlabelled:
  "collect_points P (''C:'' @ [CHR 0x5C]) (length gap_snapshots) 0 gap_snapshots ([], [], 0) =
     ([spaceGB readme_disk, spaceGB readme_disk],
      [Format P 63840911400000000000, []],
      63840911400000000000)"
  by (simp add: gap_snapshots_def readme_disk_def other_disk_def Sub_def Hour_def)

text \<open>
  Claim C4, as the code has it. \<open>saveHistory\<close> writes the serialization of the whole
  history over the file in place: a call that ends without an error leaves exactly that
  text, a history that cannot be serialized leaves the file as it was, and a process
  that stops inside \<open>os.WriteFile\<close> leaves the first bytes of the new text only.
\<close>

theorem save_overwrites_in_place:
  "(saveHistory J h f = (None, f') \<longrightarrow> (\<exists>data. MarshalIndent J h = Inr data \<and> f' = Bytes data)) \<and>
   (MarshalIndent J h = Inl e \<longrightarrow> saveHistory J h f = (Some (LibraryError e), f)) \<and>
   (MarshalIndent J h = Inr data \<and> f \<noteq> Locked \<longrightarrow>
      saveHistory J h f = (None, Bytes data) \<and>
      saveHistory_stopped n J h f = Bytes (take n data))"
  using saveHistory_done [of J h f f'] saveHistory_unencodable [of J h e f]
    saveHistory_writes [of J h data f] saveHistory_stopped_prefix [of J h data f n]
  by blast

theorem save_overwrites_in_place_witness:
  "saveHistory json_samples (append_snapshot readme_history later_snapshot) (Bytes readme_text) =
     (None, Bytes later_text) \<and>
   MarshalIndent json_samples (append_snapshot readme_history later_snapshot) = Inr later_text \<and>
   MarshalIndent json_samples \<lparr>Snapshots = []\<rparr> = Inl MarshalerError \<and>
   saveHistory json_samples \<lparr>Snapshots = []\<rparr> (Bytes readme_text) =
     (Some (LibraryError MarshalerError), Bytes readme_text) \<and>
   Bytes readme_text \<noteq> Locked \<and>
   saveHistory_stopped 1 json_samples (append_snapshot readme_history later_snapshot) (Bytes readme_text) =
     Bytes ''{''"
proof -
  have e: "MarshalIndent json_samples (append_snapshot readme_history later_snapshot) = Inr later_text"
    by (rule sample_encode)
  have u: "MarshalIndent json_samples \<lparr>Snapshots = []\<rparr> = Inl MarshalerError"
    by (simp add: json_samples_def readme_history_def append_snapshot_def)
  have t: "take 1 later_text = ''{''"
    by (simp add: later_text_def)
  note a = save_overwrites_in_place [of json_samples "append_snapshot readme_history later_snapshot"
      "Bytes readme_text" "Bytes later_text" MarshalerError later_text 1]
  note b = save_overwrites_in_place [of json_samples "\<lparr>Snapshots = []\<rparr>"
      "Bytes readme_text" "Bytes later_text" MarshalerError later_text 1]
  from a e t b u show ?thesis
    by simp
qed

text \<open>
  Claim C4 as the specification states it fails. The file holds the history of the
  README; a save of the history with a second snapshot stops when \<open>os.WriteFile\<close> has
  opened the file and written nothing yet. The next load finds neither the old nor the
  new history: it fails.
\<close>

theorem interrupted_save_unreadable:
  "loadHistory json_samples (Bytes readme_text) = Inr readme_history \<and>
   loadHistory json_samples
     (saveHistory_stopped 0 json_samples (append_snapshot readme_history later_snapshot)
        (Bytes readme_text)) = Inl (LibraryError SyntaxError)"
proof -
  have "Unmarshal json_samples [] = Inl SyntaxError"
    by (simp add: json_samples_def readme_text_def later_text_def)
  then show ?thesis
    by (simp add: loadHistory_bytes sample_decode saveHistory_stopped_prefix sample_encode)
qed

text \<open>
  Claim C5. A collection cycle over no drives and a complete cycle in which every
  probe fails both return no disk. \<open>collectAndSave\<close> then returns the error
  \<open>no drives found\<close> and leaves the file alone, and the dashboard's \<open>Update\<close> sets
  that error and appends nothing. The error is returned in no other case, and a cycle
  that ends without an error has measured a disk: the error is the signal that nothing
  was measured, and no snapshot without disks stands for it.
\<close>

theorem no_drives_found:
  "(getAvailableDrives K = [] \<longrightarrow>
      getAllDisksInfo K sched = Some ([], []) \<and>
      collectAndSave K sched now J f = Some (Some NoDrivesFound, f)) \<and>
   (complete (length (getAvailableDrives K)) sched \<and>
    (\<forall>drive\<in>set (getAvailableDrives K). isl (getDiskSpace K drive)) \<longrightarrow>
      (\<exists>stderr. getAllDisksInfo K sched = Some ([], stderr) \<and>
         length stderr = length (getAvailableDrives K)) \<and>
      collectAndSave K sched now J f = Some (Some NoDrivesFound, f)) \<and>
   Update_diskInfoMsg J now [] m f = Inr (m\<lparr>err := Some NoDrivesFound, loading := False\<rparr>, f) \<and>
   (collectAndSave K sched now J f = Some (Some NoDrivesFound, f') \<longrightarrow>
      (\<exists>stderr. getAllDisksInfo K sched = Some ([], stderr)) \<and> f' = f) \<and>
   (collectAndSave K sched now J f = Some (None, f') \<longrightarrow>
      (\<exists>disks stderr. getAllDisksInfo K sched = Some (disks, stderr) \<and> disks \<noteq> []))"
proof (intro conjI impI)
  assume "getAvailableDrives K = []"
  then show g: "getAllDisksInfo K sched = Some ([], [])"
    by (rule getAllDisksInfo_no_drives)
  then show "collectAndSave K sched now J f = Some (Some NoDrivesFound, f)"
    by (rule collectAndSave_nothing)
next
  assume a: "complete (length (getAvailableDrives K)) sched \<and>
    (\<forall>drive\<in>set (getAvailableDrives K). isl (getDiskSpace K drive))"
  then obtain stderr where g: "getAllDisksInfo K sched = Some ([], stderr)"
    and l: "mset stderr = mset (map (\<lambda>drive. projl (getDiskSpace K drive)) (getAvailableDrives K))"
    using getAllDisksInfo_all_fail [of K sched] by blast
  from l have "length stderr = length (getAvailableDrives K)"
    by (metis length_map size_mset)
  with g show "\<exists>stderr. getAllDisksInfo K sched = Some ([], stderr) \<and>
      length stderr = length (getAvailableDrives K)"
    by blast
  from g show "collectAndSave K sched now J f = Some (Some NoDrivesFound, f)"
    by (rule collectAndSave_nothing)
next
  show "Update_diskInfoMsg J now [] m f = Inr (m\<lparr>err := Some NoDrivesFound, loading := False\<rparr>, f)"
    by (simp add: Update_diskInfoMsg_def)
next
  assume "collectAndSave K sched now J f = Some (Some NoDrivesFound, f')"
  then show "\<exists>stderr. getAllDisksInfo K sched = Some ([], stderr)" and "f' = f"
    using collectAndSave_signal by blast+
next
  assume "collectAndSave K sched now J f = Some (None, f')"
  then show "\<exists>disks stderr. getAllDisksInfo K sched = Some (disks, stderr) \<and> disks \<noteq> []"
    by (rule collectAndSave_measured)
qed

theorem no_drives_found_witness:
  "getAvailableDrives no_drive = [] \<and>
   collectAndSave no_drive [] 63840911400000000000 json_samples (Bytes readme_text) =
     Some (Some NoDrivesFound, Bytes readme_text) \<and>
   complete (length (getAvailableDrives (one_drive StillRunning))) [0, 0] \<and>
   isl (getDiskSpace (one_drive StillRunning) (''C:'' @ [CHR 0x5C])) \<and>
   getAllDisksInfo (one_drive StillRunning) [0, 0] =
     Some ([], [TimeoutGettingDiskInfo (''C:'' @ [CHR 0x5C])]) \<and>
   collectAndSave (one_drive StillRunning) [0, 0] 63840911400000000000 json_samples (Bytes readme_text) =
     Some (Some NoDrivesFound, Bytes readme_text)"
proof -
  have c: "complete (length (getAvailableDrives (one_drive StillRunning))) [0, 0]"
    by (simp add: drives_one complete_def)
  have i: "isl (getDiskSpace (one_drive StillRunning) (''C:'' @ [CHR 0x5C]))"
    unfolding timeout_probe by simp
  then have a: "\<forall>drive\<in>set (getAvailableDrives (one_drive StillRunning)).
      isl (getDiskSpace (one_drive StillRunning) drive)"
    by (simp add: drives_one)
  have g: "getAllDisksInfo (one_drive StillRunning) [0, 0] =
     Some ([], [TimeoutGettingDiskInfo (''C:'' @ [CHR 0x5C])])"
    unfolding getAllDisksInfo_def drives_one
    by (simp add: getDiskSpace_def one_drive_def)
  note n = no_drives_found [of no_drive "[]" 63840911400000000000 json_samples "Bytes readme_text"]
  note t = no_drives_found [of "one_drive StillRunning" "[0, 0]" 63840911400000000000 json_samples
      "Bytes readme_text"]
  from n drives_none
  have "collectAndSave no_drive [] 63840911400000000000 json_samples (Bytes readme_text) =
     Some (Some NoDrivesFound, Bytes readme_text)"
    by blast
  moreover from t c a
  have "collectAndSave (one_drive StillRunning) [0, 0] 63840911400000000000 json_samples (Bytes readme_text) =
     Some (Some NoDrivesFound, Bytes readme_text)"
    by blast
  ultimately show ?thesis
    using drives_none c i g by simp
qed

text \<open>
  Claim C6. With fewer than two snapshots in the history, \<open>updateChart\<close> leaves the
  model as it is, so no series is stored and no error is set, and the chart view is the
  header followed by the two lines that ask for more history, whatever volume is
  selected and whatever drives exist.
\<close>

theorem insufficient_history:
  assumes "history m = Some h" and "length (Snapshots h) < 2"
  shows "updateChart m = Inr m \<and>
    renderChartView P K m =
      Inr (headerStyle P ''Free space over time:'' @ ''\<newline>\<newline>''
        @ ''Not enough data for a graph yet.\<newline>''
        @ ''Run the program a few times to build history.\<newline>'')"
  using assms by (simp add: updateChart_def renderChartView_def)

theorem insufficient_history_witness:
  "history (NewModel json_samples (Bytes readme_text)) = Some readme_history \<and>
   length (Snapshots readme_history) < 2 \<and>
   updateChart (NewModel json_samples (Bytes readme_text)) = Inr (NewModel json_samples (Bytes readme_text)) \<and>
   renderChartView plain (one_drive StillRunning) (NewModel json_samples (Bytes readme_text)) =
     Inr (''Free space over time:'' @ ''\<newline>\<newline>''
        @ ''Not enough data for a graph yet.\<newline>''
        @ ''Run the program a few times to build history.\<newline>'')"
proof -
  have h: "history (NewModel json_samples (Bytes readme_text)) = Some readme_history"
    by (simp add: NewModel_def loadHistory_bytes sample_decode)
  have l: "length (Snapshots readme_history) < 2"
    by (simp add: readme_history_def)
  from insufficient_history [OF h l, of plain "one_drive StillRunning"] h l show ?thesis
    by (simp add: plain_def)
qed

text \<open>
  Claim C7. \<open>loadHistory\<close> does not fail on an absent file: it returns the empty
  history. Content that \<open>json.Unmarshal\<close> rejects is returned as that error, which is
  neither the empty history of the absent case nor any other history.
\<close>

theorem load_absent_or_malformed:
  "loadHistory J Absent = Inr \<lparr>Snapshots = []\<rparr> \<and>
   (Unmarshal J data = Inl e \<longrightarrow>
      loadHistory J (Bytes data) = Inl (LibraryError e) \<and>
      loadHistory J (Bytes data) \<noteq> loadHistory J Absent \<and>
      (\<forall>h. loadHistory J (Bytes data) \<noteq> Inr h))"
  by (simp add: loadHistory_absent loadHistory_bytes)

theorem load_absent_or_malformed_witness:
  "Unmarshal json_samples ''{'' = Inl SyntaxError \<and>
   loadHistory json_samples Absent = Inr \<lparr>Snapshots = []\<rparr> \<and>
   loadHistory json_samples (Bytes ''{'') = Inl (LibraryError SyntaxError)"
proof -
  have "Unmarshal json_samples ''{'' = Inl SyntaxError"
    by (simp add: json_samples_def readme_text_def later_text_def)
  with load_absent_or_malformed [of json_samples "''{''" SyntaxError] show ?thesis
    by simp
qed

text \<open>
  Claim C8. With at least two snapshots in the history, the series that \<open>updateChart\<close>
  stores for a volume has one point for each snapshot that contains the volume, in the
  order of the history and whatever the timestamps are; a snapshot without the volume
  adds nothing. The point is \<open>float64(free) / 1024 / 1024 / 1024\<close>, which is exactly
  \<open>free / 1024^3\<close> for every free space below \<open>2^53\<close> bytes. The chart view collects
  the same points.
\<close>

theorem series_in_storage_order:
  assumes "history m = Some h" and "2 \<le> length (Snapshots h)"
  shows "\<exists>m'. updateChart m = Inr m' \<and>
    series_of m' drive =
      map (\<lambda>snapshot. spaceGB (the (find (\<lambda>disk. Drive disk = drive) (Disks snapshot))))
        (filter (\<lambda>snapshot. drive \<in> Drive ` set (Disks snapshot)) (Snapshots h)) \<and>
    ((\<forall>snapshot\<in>set (Snapshots h). \<forall>disk\<in>set (Disks snapshot). unat (FreeSpace disk) < 2 ^ 53) \<longrightarrow>
       series_of m' drive = spec_series drive (Snapshots h)) \<and>
    fst (collect_points P drive (length (Snapshots h)) 0 (Snapshots h) ([], [], 0)) = series_of m' drive"
proof -
  from updateChart_series [OF assms] obtain m' where
    u: "updateChart m = Inr m'"
    and s: "\<And>drive. series_of m' drive = map spaceGB (containing drive (Snapshots h))"
    by blast
  have "fst (collect_points P drive (length (Snapshots h)) 0 (Snapshots h) ([], [], 0)) =
      map spaceGB (containing drive (Snapshots h))"
    using collect_points_series [of P drive "length (Snapshots h)" 0 "Snapshots h" "[]" "[]" 0]
    by (cases "collect_points P drive (length (Snapshots h)) 0 (Snapshots h) ([], [], 0)") auto
  with u s spec_series_exact [of "Snapshots h" drive] show ?thesis
    by (auto simp: containing_filter)
qed

theorem series_in_storage_order_witness:
  "history sample_model = Some (append_snapshot readme_history later_snapshot) \<and>
   2 \<le> length (Snapshots (append_snapshot readme_history later_snapshot)) \<and>
   (\<exists>m'. updateChart sample_model = Inr m' \<and>
      series_of m' (''C:'' @ [CHR 0x5C]) = [150000000000 / 1024 ^ 3, 140000000000 / 1024 ^ 3] \<and>
      series_of m' (''D:'' @ [CHR 0x5C]) = [])"
proof -
  have l: "2 \<le> length (Snapshots (append_snapshot readme_history later_snapshot))"
    by (simp add: sample_snapshots)
  have b: "\<forall>snapshot\<in>set (Snapshots (append_snapshot readme_history later_snapshot)).
      \<forall>disk\<in>set (Disks snapshot). unat (FreeSpace disk) < 2 ^ 53"
    unfolding sample_snapshots
    by (simp add: readme_snapshot_def later_snapshot_def readme_disk_def later_disk_def)
  have c: "spec_series (''C:'' @ [CHR 0x5C]) (Snapshots (append_snapshot readme_history later_snapshot)) =
      [150000000000 / 1024 ^ 3, 140000000000 / 1024 ^ 3]"
    unfolding sample_snapshots
    by (simp add: spec_series_def readme_snapshot_def later_snapshot_def
        readme_disk_def later_disk_def)
  have d: "spec_series (''D:'' @ [CHR 0x5C]) (Snapshots (append_snapshot readme_history later_snapshot)) = []"
    unfolding sample_snapshots
    by (simp add: spec_series_def readme_snapshot_def later_snapshot_def
        readme_disk_def later_disk_def)
  from series_in_storage_order [OF sample_model_history l, of "''C:'' @ [CHR 0x5C]" plain] b c
  obtain m' where m: "updateChart sample_model = Inr m'"
    and sc: "series_of m' (''C:'' @ [CHR 0x5C]) = [150000000000 / 1024 ^ 3, 140000000000 / 1024 ^ 3]"
    by auto
  from series_in_storage_order [OF sample_model_history l, of "''D:'' @ [CHR 0x5C]" plain] b d m
  have "series_of m' (''D:'' @ [CHR 0x5C]) = []"
    by auto
  with m sc sample_model_history l show ?thesis
    by blast
qed

text \<open>
  Claim C9. \<open>formatBytes\<close> renders a count below 1024 as its decimal digits with the
  unit \<open>B\<close>. From 1024 on it divides by the power of 1024 that lies at or below the
  count, the first power for \<open>KB\<close> up to the sixth for \<open>EB\<close>, and prints the
  quotient with exactly one digit after the point. The four examples of the
  specification hold.
\<close>

theorem formatBytes_units:
  "(bytes < 1024 \<longrightarrow> formatBytes bytes = Inr (sprintf_d (unat bytes) @ '' B'')) \<and>
   (\<forall>k\<le>5. 1024 ^ Suc k \<le> unat bytes \<and> unat bytes < 1024 ^ Suc (Suc k) \<longrightarrow>
      formatBytes bytes =
        Inr (sprintf_f1 (float64_of_uint64 bytes / 1024 ^ Suc k) @ '' '' @ [''KMGTPE'' ! k] @ ''B'')) \<and>
   (1024 \<le> bytes \<longrightarrow>
      (\<exists>ip d u. formatBytes bytes = Inr (ip @ ''.'' @ [d] @ '' '' @ [u] @ ''B'') \<and>
         ip \<noteq> [] \<and> set ip \<subseteq> set ''0123456789'' \<and> d \<in> set ''0123456789'' \<and>
         u \<in> set ''KMGTPE'')) \<and>
   formatBytes 0 = Inr ''0 B'' \<and> formatBytes 1023 = Inr ''1023 B'' \<and>
   formatBytes 1024 = Inr ''1.0 KB'' \<and> formatBytes 1536 = Inr ''1.5 KB''"
  using formatBytes_small formatBytes_scaled formatBytes_shape
    formatBytes_0 formatBytes_1023 formatBytes_1024 formatBytes_1536
  by blast

theorem formatBytes_units_witness:
  "(5 :: uint64) < 1024 \<and> formatBytes 5 = Inr ''5 B'' \<and>
   (1 :: nat) \<le> 5 \<and> 1024 ^ Suc 1 \<le> unat (3145728 :: uint64) \<and>
   unat (3145728 :: uint64) < 1024 ^ Suc (Suc 1) \<and>
   formatBytes 3145728 = Inr ''3.0 MB'' \<and> (1024 :: uint64) \<le> 3145728"
proof -
  have a: "(5 :: uint64) < 1024"
    by simp
  have b: "(1 :: nat) \<le> 5 \<and> 1024 ^ Suc 1 \<le> unat (3145728 :: uint64) \<and>
      unat (3145728 :: uint64) < 1024 ^ Suc (Suc 1)"
    by simp
  have c: "(1024 :: uint64) \<le> 3145728"
    by simp
  have d: "float64_of_uint64 3145728 / 1024 ^ Suc 1 = of_nat 3145728 / of_nat 1048576"
    by (simp add: float64_of_uint64_def round_to_53_bits_def)
  have e: "sprintf_f1 (of_nat 3145728 / of_nat 1048576) = ''3.0''"
    by (subst sprintf_f1_quotient) (simp_all add: sprintf_d_digit)
  from formatBytes_units [of 5] a have "formatBytes 5 = Inr ''5 B''"
    by (simp add: sprintf_d_digit)
  moreover have "formatBytes 3145728 = Inr ''3.0 MB''"
  proof -
    have "formatBytes 3145728 =
        Inr (sprintf_f1 (float64_of_uint64 3145728 / 1024 ^ Suc 1) @ '' '' @ [''KMGTPE'' ! 1] @ ''B'')"
      using formatBytes_units [of 3145728, THEN conjunct2, THEN conjunct1, rule_format, of 1] b
      by blast
    then show ?thesis
      unfolding d e by simp
  qed
  ultimately show ?thesis
    using a b c by simp
qed



end
